theory Spec2Isabelle
  imports Main "HOL-Library.Word" "HOL-Library.Monad_Syntax"
begin

section \<open>Data model of \<open>shared_ptr.h\<close>\<close>

text \<open>
  Heap addresses of managed objects and of control blocks are natural numbers; a nullable
  raw pointer is an \<open>addr option\<close> with \<open>None\<close> for \<open>nullptr\<close>. A handle object is
  identified by its own address (what \<open>this\<close> and \<open>&other\<close> compare), a non-null 64-bit
  pointer. \<open>size_t\<close> is a 64-bit word, so \<open>++\<close> and \<open>--\<close> wrap around.
\<close>

type_synonym addr = nat
type_synonym hid = "64 word"

datatype error = BadWeakPtr

text \<open>\<open>struct Counter\<close>; \<open>Counter_new\<close> is its constructor \<open>Counter()\<close>.\<close>

record Counter =
  strong_count :: "64 word"
  weak_count :: "64 word"

definition Counter_new :: Counter where
  "Counter_new = \<lparr>strong_count = 1, weak_count = 0\<rparr>"

text \<open>
  The two private fields \<open>ptr_\<close> and \<open>counter_\<close>, which \<open>SharedPtr\<close> and \<open>WeakPtr\<close>
  both have.
\<close>

record Ptr =
  ptr :: "addr option"
  counter :: "addr option"

definition null_Ptr :: Ptr where
  "null_Ptr = \<lparr>ptr = None, counter = None\<rparr>"

text \<open>
  The managed type \<open>T\<close> is a parameter of the templates. What matters of it here is
  which handles a managed object stores: \<open>delete ptr_\<close> runs \<open>~T()\<close>, which runs the
  destructors of these handles. A place inside an object where a handle can live is a
  \<open>member\<close>: the address of a \<open>SharedPtr\<close> or of a \<open>WeakPtr\<close>.
\<close>

datatype member = Strong hid | Weak hid

text \<open>
  The program state: the allocated control blocks, the live \<open>SharedPtr\<close> and \<open>WeakPtr\<close>
  objects, the allocator's next addresses, and two logs: \<open>destroyed\<close> records every
  \<open>delete ptr_\<close> of a non-null pointer and \<open>freed\<close> every \<open>delete counter_\<close>, in order.
  \<open>layout s a\<close> lists the members of the object at address \<open>a\<close>, in the order in
  which \<open>~T()\<close> destroys them; no operation changes it. A handle constructed at the
  address of a member is stored in that object.
\<close>

record state =
  blocks :: "addr \<rightharpoonup> Counter"
  shared :: "hid \<rightharpoonup> Ptr"
  weak :: "hid \<rightharpoonup> Ptr"
  layout :: "addr \<Rightarrow> member list"
  next_block :: addr
  next_obj :: addr
  destroyed :: "addr list"
  freed :: "addr list"

text \<open>The empty state of a program whose objects are laid out as \<open>L\<close> says.\<close>

definition init :: "(addr \<Rightarrow> member list) \<Rightarrow> state" where
  "init L = \<lparr>blocks = Map.empty, shared = Map.empty, weak = Map.empty, layout = L,
             next_block = 0, next_obj = 0, destroyed = [], freed = []\<rparr>"

text \<open>The layout of a program whose managed objects store no handles.\<close>

definition no_members :: "addr \<Rightarrow> member list" where
  "no_members a = []"

text \<open>
  An operation that cannot throw yields \<open>state option\<close>; \<open>None\<close> stands for undefined
  behaviour (a control block read after its deallocation, a null \<open>counter_\<close> dereferenced)
  and for a call that is not a program (a handle that is not alive, a constructor run on
  storage that is null or holds a live handle). The two operations that can throw, and
  \<open>Lock\<close>, which calls one of them, yield an \<open>outcome\<close>; \<open>Throws\<close> carries the state
  at the \<open>throw\<close>.
\<close>

datatype outcome = Returns state | Throws error state | Undefined

definition lift :: "state option \<Rightarrow> outcome" where
  "lift r = (case r of None \<Rightarrow> Undefined | Some s \<Rightarrow> Returns s)"

subsection \<open>Memory primitives\<close>

definition set_shared :: "hid \<Rightarrow> Ptr \<Rightarrow> state \<Rightarrow> state" where
  "set_shared h x s = s\<lparr>shared := (shared s)(h \<mapsto> x)\<rparr>"

definition set_weak :: "hid \<Rightarrow> Ptr \<Rightarrow> state \<Rightarrow> state" where
  "set_weak h x s = s\<lparr>weak := (weak s)(h \<mapsto> x)\<rparr>"

text \<open>\<open>new Counter()\<close>: a block at an address never used before.\<close>

definition new_Counter :: "state \<Rightarrow> addr \<times> state" where
  "new_Counter s =
     (next_block s,
      s\<lparr>blocks := (blocks s)(next_block s \<mapsto> Counter_new),
        next_block := Suc (next_block s)\<rparr>)"

text \<open>\<open>delete counter_\<close>.\<close>

definition delete_Counter :: "addr \<Rightarrow> state \<Rightarrow> state" where
  "delete_Counter c s = s\<lparr>blocks := (blocks s)(c := None), freed := freed s @ [c]\<rparr>"

text \<open>\<open>++(counter_->strong_count)\<close> and \<open>++(counter_->weak_count)\<close>.\<close>

definition inc_strong :: "addr option \<Rightarrow> state \<Rightarrow> state option" where
  "inc_strong p s = do {
     c \<leftarrow> p;
     b \<leftarrow> blocks s c;
     Some (s\<lparr>blocks := (blocks s)(c \<mapsto> b\<lparr>strong_count := strong_count b + 1\<rparr>)\<rparr>)
   }"

definition inc_weak :: "addr option \<Rightarrow> state \<Rightarrow> state option" where
  "inc_weak p s = do {
     c \<leftarrow> p;
     b \<leftarrow> blocks s c;
     Some (s\<lparr>blocks := (blocks s)(c \<mapsto> b\<lparr>weak_count := weak_count b + 1\<rparr>)\<rparr>)
   }"

text \<open>The guard of a constructor: the storage is not null and holds no live handle.\<close>

definition fresh_shared :: "hid \<Rightarrow> state \<Rightarrow> bool" where
  "fresh_shared h s \<longleftrightarrow> h \<noteq> 0 \<and> shared s h = None"

definition fresh_weak :: "hid \<Rightarrow> state \<Rightarrow> bool" where
  "fresh_weak h s \<longleftrightarrow> h \<noteq> 0 \<and> weak s h = None"

section \<open>\<open>Release\<close> and the destructors\<close>

text \<open>
  \<open>SharedPtr::Release\<close> (lines 29-38) calls \<open>delete ptr_\<close>, which destroys the handles
  stored in the object, whose destructors (lines 99-101 and 212-214) call \<open>Release\<close>
  again. The calls that have started and not returned are kept in a list, innermost
  first:
  \<^item> \<open>Call_Release this\<close>: \<open>SharedPtr::Release\<close> is called on a handle with the fields
    \<open>this\<close>;
  \<^item> \<open>Call_Weak_Release this\<close>: \<open>WeakPtr::Release\<close> (lines 151-157) is called on a handle
    with the fields \<open>this\<close>;
  \<^item> \<open>Call_dtor m\<close>: \<open>~T()\<close> comes to the member \<open>m\<close>; if a handle is alive there, its
    destructor runs: the handle leaves the store and its \<open>Release\<close> is called on the
    fields it had (\<open>Release\<close> reads the two fields and never writes them);
  \<open>~T()\<close> itself runs no other handle operation;
  \<^item> \<open>Resume_Release c\<close>: \<open>delete ptr_\<close> has returned to a \<open>SharedPtr::Release\<close> whose
    \<open>counter_\<close> is \<open>c\<close>, and lines 33-35 run: they read \<open>counter_->weak_count\<close>.
  \<open>exec_calls\<close> runs the list to its end. It returns \<open>None\<close> when a call dereferences a
  \<open>counter_\<close> that is not allocated.
\<close>

datatype call =
    Call_Release Ptr
  | Call_Weak_Release Ptr
  | Call_dtor member
  | Resume_Release addr

fun is_Release :: "call \<Rightarrow> bool" where
  "is_Release (Call_Release this) = True"
| "is_Release (Call_Weak_Release this) = True"
| "is_Release (Call_dtor m) = False"
| "is_Release (Resume_Release c) = False"

function (sequential) exec_calls :: "call list \<Rightarrow> state \<Rightarrow> state option" where
  "exec_calls [] s = Some s"
| "exec_calls (Call_Release this # k) s =
     (case counter this of
        None \<Rightarrow> exec_calls k s
      | Some c \<Rightarrow>
         (case blocks s c of
            None \<Rightarrow> None
          | Some b \<Rightarrow>
             if strong_count b - 1 = 0
             then (case ptr this of
                     None \<Rightarrow>
                       exec_calls (Resume_Release c # k)
                         (s\<lparr>blocks := (blocks s)(c \<mapsto> b\<lparr>strong_count := strong_count b - 1\<rparr>)\<rparr>)
                   | Some a \<Rightarrow>
                       exec_calls (map Call_dtor (layout s a) @ Resume_Release c # k)
                         (s\<lparr>blocks := (blocks s)(c \<mapsto> b\<lparr>strong_count := strong_count b - 1\<rparr>),
                            destroyed := destroyed s @ [a]\<rparr>))
             else exec_calls k
                    (s\<lparr>blocks := (blocks s)(c \<mapsto> b\<lparr>strong_count := strong_count b - 1\<rparr>)\<rparr>)))"
| "exec_calls (Resume_Release c # k) s =
     (case blocks s c of
        None \<Rightarrow> None
      | Some b \<Rightarrow>
         if weak_count b = 0 then exec_calls k (delete_Counter c s) else exec_calls k s)"
| "exec_calls (Call_Weak_Release this # k) s =
     (case counter this of
        None \<Rightarrow> exec_calls k s
      | Some c \<Rightarrow>
         (case blocks s c of
            None \<Rightarrow> None
          | Some b \<Rightarrow>
             if weak_count b - 1 = 0 \<and> strong_count b = 0
             then exec_calls k
                    (delete_Counter c
                      (s\<lparr>blocks := (blocks s)(c \<mapsto> b\<lparr>weak_count := weak_count b - 1\<rparr>)\<rparr>))
             else exec_calls k
                    (s\<lparr>blocks := (blocks s)(c \<mapsto> b\<lparr>weak_count := weak_count b - 1\<rparr>)\<rparr>)))"
| "exec_calls (Call_dtor (Strong h) # k) s =
     (case shared s h of
        None \<Rightarrow> exec_calls k s
      | Some this \<Rightarrow> exec_calls (Call_Release this # k) (s\<lparr>shared := (shared s)(h := None)\<rparr>))"
| "exec_calls (Call_dtor (Weak w) # k) s =
     (case weak s w of
        None \<Rightarrow> exec_calls k s
      | Some this \<Rightarrow> exec_calls (Call_Weak_Release this # k) (s\<lparr>weak := (weak s)(w := None)\<rparr>))"
  by pat_completeness auto

text \<open>
  Every call either removes a live handle, or ends a \<open>Release\<close> that had been called, or
  shortens the list; handles are finitely many, so the list runs to its end.
\<close>

termination
proof (relation "inv_image (less_than <*lex*> less_than <*lex*> less_than)
         (\<lambda>(k, s). (card (dom (shared s)) + card (dom (weak s)),
                     length (filter is_Release k), length k))", goal_cases)
  case 1
  show ?case by auto
qed (auto simp: delete_Counter_def intro!: card_Diff1_less)

section \<open>\<open>SharedPtr\<close>\<close>

text \<open>A call of \<open>SharedPtr::Release\<close> (lines 29-38) on the live handle \<open>h\<close>.\<close>

definition SharedPtr_Release :: "hid \<Rightarrow> state \<Rightarrow> state option" where
  "SharedPtr_Release h s = do {
     this \<leftarrow> shared s h;
     exec_calls [Call_Release this] s
   }"

text \<open>\<open>SharedPtr()\<close> and \<open>SharedPtr(T* ptr)\<close> (lines 41-43).\<close>

definition SharedPtr_default :: "hid \<Rightarrow> state \<Rightarrow> state option" where
  "SharedPtr_default h s =
     (if fresh_shared h s then Some (set_shared h \<lparr>ptr = None, counter = None\<rparr> s) else None)"

definition SharedPtr_raw :: "hid \<Rightarrow> addr option \<Rightarrow> state \<Rightarrow> state option" where
  "SharedPtr_raw h p s =
     (if fresh_shared h s
      then (case p of
              None \<Rightarrow> Some (set_shared h \<lparr>ptr = p, counter = None\<rparr> s)
            | Some a \<Rightarrow> (let (c, s1) = new_Counter s
                        in Some (set_shared h \<lparr>ptr = p, counter = Some c\<rparr> s1)))
      else None)"

text \<open>\<open>SharedPtr(const SharedPtr&)\<close> and \<open>SharedPtr(SharedPtr&&)\<close> (lines 45-54).\<close>

definition SharedPtr_copy :: "hid \<Rightarrow> hid \<Rightarrow> state \<Rightarrow> state option" where
  "SharedPtr_copy h other s =
     (if fresh_shared h s
      then do {
        x \<leftarrow> shared s other;
        let s1 = set_shared h \<lparr>ptr = ptr x, counter = counter x\<rparr> s;
        if counter x \<noteq> None then inc_strong (counter x) s1 else Some s1
      }
      else None)"

definition SharedPtr_move :: "hid \<Rightarrow> hid \<Rightarrow> state \<Rightarrow> state option" where
  "SharedPtr_move h other s =
     (if fresh_shared h s
      then do {
        x \<leftarrow> shared s other;
        let s1 = set_shared h \<lparr>ptr = ptr x, counter = counter x\<rparr> s;
        Some (set_shared other \<lparr>ptr = None, counter = None\<rparr> s1)
      }
      else None)"

text \<open>\<open>SharedPtr::UseCount\<close>, \<open>Get\<close> and \<open>operator bool\<close> (lines 122-140).\<close>

definition SharedPtr_UseCount :: "hid \<Rightarrow> state \<Rightarrow> 64 word option" where
  "SharedPtr_UseCount h s = do {
     this \<leftarrow> shared s h;
     case counter this of
       None \<Rightarrow> Some 0
     | Some c \<Rightarrow> do { b \<leftarrow> blocks s c; Some (strong_count b) }
   }"

definition SharedPtr_Get :: "hid \<Rightarrow> state \<Rightarrow> addr option option" where
  "SharedPtr_Get h s = do { this \<leftarrow> shared s h; Some (ptr this) }"

definition SharedPtr_bool :: "hid \<Rightarrow> state \<Rightarrow> bool option" where
  "SharedPtr_bool h s = do { this \<leftarrow> shared s h; Some (ptr this \<noteq> None) }"

text \<open>\<open>WeakPtr::UseCount\<close> and \<open>WeakPtr::Expired\<close> (lines 227-233).\<close>

definition WeakPtr_UseCount :: "hid \<Rightarrow> state \<Rightarrow> 64 word option" where
  "WeakPtr_UseCount w s = do {
     this \<leftarrow> weak s w;
     case counter this of
       None \<Rightarrow> Some 0
     | Some c \<Rightarrow> do { b \<leftarrow> blocks s c; Some (strong_count b) }
   }"

definition WeakPtr_Expired :: "hid \<Rightarrow> state \<Rightarrow> bool option" where
  "WeakPtr_Expired w s = do { n \<leftarrow> WeakPtr_UseCount w s; Some (n = 0) }"

text \<open>
  \<open>SharedPtr(const WeakPtr<T>&)\<close> (lines 56-63): the fields are set only after the
  check, so a throw leaves the state as it was.
\<close>

definition SharedPtr_from_weak :: "hid \<Rightarrow> hid \<Rightarrow> state \<Rightarrow> outcome" where
  "SharedPtr_from_weak h w s =
     (if fresh_shared h s
      then (case WeakPtr_Expired w s of
              None \<Rightarrow> Undefined
            | Some True \<Rightarrow> Throws BadWeakPtr s
            | Some False \<Rightarrow>
                lift (do {
                  x \<leftarrow> weak s w;
                  let s1 = set_shared h \<lparr>ptr = ptr x, counter = counter x\<rparr> s;
                  inc_strong (counter x) s1
                }))
      else Undefined)"

text \<open>
  \<open>operator=(const WeakPtr<T>&)\<close> (lines 65-74). After \<open>Release()\<close> the operator
  writes the fields of \<open>*this\<close> and reads those of its argument; if the release has
  destroyed one of the two (it was stored in an object that the release deleted), that
  is undefined. The same holds of the other two assignment operators and of \<open>Reset\<close>.
\<close>

definition SharedPtr_assign_weak :: "hid \<Rightarrow> hid \<Rightarrow> state \<Rightarrow> outcome" where
  "SharedPtr_assign_weak h w s =
     (case WeakPtr_Expired w s of
        None \<Rightarrow> Undefined
      | Some True \<Rightarrow> Throws BadWeakPtr s
      | Some False \<Rightarrow>
          lift (do {
            s1 \<leftarrow> SharedPtr_Release h s;
            _ \<leftarrow> shared s1 h;
            x \<leftarrow> weak s1 w;
            let s2 = set_shared h \<lparr>ptr = ptr x, counter = counter x\<rparr> s1;
            inc_strong (counter x) s2
          }))"

text \<open>\<open>operator=(const SharedPtr&)\<close> and \<open>operator=(SharedPtr&&)\<close> (lines 76-97).\<close>

definition SharedPtr_assign_copy :: "hid \<Rightarrow> hid \<Rightarrow> state \<Rightarrow> state option" where
  "SharedPtr_assign_copy h other s = do {
     _ \<leftarrow> shared s h;
     _ \<leftarrow> shared s other;
     if h \<noteq> other
     then do {
       s1 \<leftarrow> SharedPtr_Release h s;
       _ \<leftarrow> shared s1 h;
       x \<leftarrow> shared s1 other;
       let s2 = set_shared h \<lparr>ptr = ptr x, counter = counter x\<rparr> s1;
       if counter x \<noteq> None then inc_strong (counter x) s2 else Some s2
     }
     else Some s
   }"

definition SharedPtr_assign_move :: "hid \<Rightarrow> hid \<Rightarrow> state \<Rightarrow> state option" where
  "SharedPtr_assign_move h other s = do {
     _ \<leftarrow> shared s h;
     _ \<leftarrow> shared s other;
     if h \<noteq> other
     then do {
       s1 \<leftarrow> SharedPtr_Release h s;
       _ \<leftarrow> shared s1 h;
       x \<leftarrow> shared s1 other;
       let s2 = set_shared h \<lparr>ptr = ptr x, counter = counter x\<rparr> s1;
       Some (set_shared other \<lparr>ptr = None, counter = None\<rparr> s2)
     }
     else Some s
   }"

text \<open>\<open>~SharedPtr()\<close> (lines 99-101), run on the live handle \<open>h\<close>.\<close>

definition SharedPtr_dtor :: "hid \<Rightarrow> state \<Rightarrow> state option" where
  "SharedPtr_dtor h s = do {
     _ \<leftarrow> shared s h;
     exec_calls [Call_dtor (Strong h)] s
   }"

text \<open>\<open>SharedPtr::Reset\<close> (lines 103-115).\<close>

definition SharedPtr_Reset :: "hid \<Rightarrow> addr option \<Rightarrow> state \<Rightarrow> state option" where
  "SharedPtr_Reset h p s = do {
     this \<leftarrow> shared s h;
     if p \<noteq> ptr this
     then do {
       s1 \<leftarrow> SharedPtr_Release h s;
       _ \<leftarrow> shared s1 h;
       if p \<noteq> None
       then (let (c, s2) = new_Counter s1
             in Some (set_shared h \<lparr>ptr = p, counter = Some c\<rparr> s2))
       else Some (set_shared h \<lparr>ptr = None, counter = None\<rparr> s1)
     }
     else Some s
   }"

text \<open>\<open>SharedPtr::Swap\<close> (lines 117-120).\<close>

definition SharedPtr_Swap :: "hid \<Rightarrow> hid \<Rightarrow> state \<Rightarrow> state option" where
  "SharedPtr_Swap h other s = do {
     x \<leftarrow> shared s h;
     y \<leftarrow> shared s other;
     Some (set_shared other x (set_shared h y s))
   }"

section \<open>\<open>WeakPtr\<close>\<close>

text \<open>A call of \<open>WeakPtr::Release\<close> (lines 151-157) on the live handle \<open>w\<close>.\<close>

definition WeakPtr_Release :: "hid \<Rightarrow> state \<Rightarrow> state option" where
  "WeakPtr_Release w s = do {
     this \<leftarrow> weak s w;
     exec_calls [Call_Weak_Release this] s
   }"

text \<open>\<open>WeakPtr()\<close>, \<open>WeakPtr(const WeakPtr&)\<close>, \<open>WeakPtr(WeakPtr&&)\<close> and
  \<open>WeakPtr(const SharedPtr<T>&)\<close> (lines 160-177).\<close>

definition WeakPtr_default :: "hid \<Rightarrow> state \<Rightarrow> state option" where
  "WeakPtr_default w s =
     (if fresh_weak w s then Some (set_weak w \<lparr>ptr = None, counter = None\<rparr> s) else None)"

definition WeakPtr_copy :: "hid \<Rightarrow> hid \<Rightarrow> state \<Rightarrow> state option" where
  "WeakPtr_copy w other s =
     (if fresh_weak w s
      then do {
        x \<leftarrow> weak s other;
        let s1 = set_weak w \<lparr>ptr = ptr x, counter = counter x\<rparr> s;
        if counter x \<noteq> None then inc_weak (counter x) s1 else Some s1
      }
      else None)"

definition WeakPtr_move :: "hid \<Rightarrow> hid \<Rightarrow> state \<Rightarrow> state option" where
  "WeakPtr_move w other s =
     (if fresh_weak w s
      then do {
        x \<leftarrow> weak s other;
        let s1 = set_weak w \<lparr>ptr = ptr x, counter = counter x\<rparr> s;
        Some (set_weak other \<lparr>ptr = None, counter = None\<rparr> s1)
      }
      else None)"

definition WeakPtr_from_shared :: "hid \<Rightarrow> hid \<Rightarrow> state \<Rightarrow> state option" where
  "WeakPtr_from_shared w sp s =
     (if fresh_weak w s
      then do {
        x \<leftarrow> shared s sp;
        let s1 = set_weak w \<lparr>ptr = ptr x, counter = counter x\<rparr> s;
        if counter x \<noteq> None then inc_weak (counter x) s1 else Some s1
      }
      else None)"

text \<open>\<open>operator=(const SharedPtr<T>&)\<close>, \<open>operator=(const WeakPtr&)\<close> and
  \<open>operator=(WeakPtr&&)\<close> (lines 179-210).\<close>

definition WeakPtr_assign_shared :: "hid \<Rightarrow> hid \<Rightarrow> state \<Rightarrow> state option" where
  "WeakPtr_assign_shared w sp s = do {
     _ \<leftarrow> shared s sp;
     s1 \<leftarrow> WeakPtr_Release w s;
     x \<leftarrow> shared s1 sp;
     let s2 = set_weak w \<lparr>ptr = ptr x, counter = counter x\<rparr> s1;
     if counter x \<noteq> None then inc_weak (counter x) s2 else Some s2
   }"

definition WeakPtr_assign_copy :: "hid \<Rightarrow> hid \<Rightarrow> state \<Rightarrow> state option" where
  "WeakPtr_assign_copy w other s = do {
     _ \<leftarrow> weak s w;
     _ \<leftarrow> weak s other;
     if w \<noteq> other
     then do {
       s1 \<leftarrow> WeakPtr_Release w s;
       x \<leftarrow> weak s1 other;
       let s2 = set_weak w \<lparr>ptr = ptr x, counter = counter x\<rparr> s1;
       if counter x \<noteq> None then inc_weak (counter x) s2 else Some s2
     }
     else Some s
   }"

definition WeakPtr_assign_move :: "hid \<Rightarrow> hid \<Rightarrow> state \<Rightarrow> state option" where
  "WeakPtr_assign_move w other s = do {
     _ \<leftarrow> weak s w;
     _ \<leftarrow> weak s other;
     if w \<noteq> other
     then do {
       s1 \<leftarrow> WeakPtr_Release w s;
       x \<leftarrow> weak s1 other;
       let s2 = set_weak w \<lparr>ptr = ptr x, counter = counter x\<rparr> s1;
       Some (set_weak other \<lparr>ptr = None, counter = None\<rparr> s2)
     }
     else Some s
   }"

text \<open>\<open>~WeakPtr()\<close>, \<open>WeakPtr::Reset\<close> and \<open>WeakPtr::Swap\<close> (lines 212-225).\<close>

definition WeakPtr_dtor :: "hid \<Rightarrow> state \<Rightarrow> state option" where
  "WeakPtr_dtor w s = do {
     _ \<leftarrow> weak s w;
     exec_calls [Call_dtor (Weak w)] s
   }"

definition WeakPtr_Reset :: "hid \<Rightarrow> state \<Rightarrow> state option" where
  "WeakPtr_Reset w s = do {
     s1 \<leftarrow> WeakPtr_Release w s;
     Some (set_weak w \<lparr>ptr = None, counter = None\<rparr> s1)
   }"

definition WeakPtr_Swap :: "hid \<Rightarrow> hid \<Rightarrow> state \<Rightarrow> state option" where
  "WeakPtr_Swap w other s = do {
     x \<leftarrow> weak s w;
     y \<leftarrow> weak s other;
     Some (set_weak other x (set_weak w y s))
   }"

text \<open>
  \<open>WeakPtr::Lock\<close> (lines 235-240); the returned \<open>SharedPtr\<close> is the object \<open>h\<close>. The
  second branch runs the constructor \<open>SharedPtr(const WeakPtr<T>&)\<close>, whose \<open>throw\<close> would
  leave \<open>Lock\<close>.
\<close>

definition WeakPtr_Lock :: "hid \<Rightarrow> hid \<Rightarrow> state \<Rightarrow> outcome" where
  "WeakPtr_Lock w h s =
     (case WeakPtr_Expired w s of
        None \<Rightarrow> Undefined
      | Some True \<Rightarrow> lift (SharedPtr_default h s)
      | Some False \<Rightarrow> SharedPtr_from_weak h w s)"

section \<open>\<open>MakeShared\<close>\<close>

text \<open>\<open>MakeShared\<close> (lines 245-248): \<open>new T(...)\<close> gives an object at an address never
  used before, which the returned \<open>SharedPtr\<close> \<open>h\<close> adopts.\<close>

definition MakeShared :: "hid \<Rightarrow> state \<Rightarrow> state option" where
  "MakeShared h s =
     SharedPtr_raw h (Some (next_obj s)) (s\<lparr>next_obj := Suc (next_obj s)\<rparr>)"

section \<open>Programs: sequences of handle operations\<close>

datatype op =
    SP_default hid
  | SP_raw hid "addr option"
  | SP_copy hid hid
  | SP_move hid hid
  | SP_from_weak hid hid
  | SP_assign_weak hid hid
  | SP_assign_copy hid hid
  | SP_assign_move hid hid
  | SP_dtor hid
  | SP_Reset hid "addr option"
  | SP_Swap hid hid
  | WP_default hid
  | WP_copy hid hid
  | WP_move hid hid
  | WP_from_shared hid hid
  | WP_assign_shared hid hid
  | WP_assign_copy hid hid
  | WP_assign_move hid hid
  | WP_dtor hid
  | WP_Reset hid
  | WP_Swap hid hid
  | WP_Lock hid hid
  | Make_Shared hid

fun exec :: "op \<Rightarrow> state \<Rightarrow> outcome" where
  "exec (SP_default h) s = lift (SharedPtr_default h s)"
| "exec (SP_raw h p) s = lift (SharedPtr_raw h p s)"
| "exec (SP_copy h other) s = lift (SharedPtr_copy h other s)"
| "exec (SP_move h other) s = lift (SharedPtr_move h other s)"
| "exec (SP_from_weak h w) s = SharedPtr_from_weak h w s"
| "exec (SP_assign_weak h w) s = SharedPtr_assign_weak h w s"
| "exec (SP_assign_copy h other) s = lift (SharedPtr_assign_copy h other s)"
| "exec (SP_assign_move h other) s = lift (SharedPtr_assign_move h other s)"
| "exec (SP_dtor h) s = lift (SharedPtr_dtor h s)"
| "exec (SP_Reset h p) s = lift (SharedPtr_Reset h p s)"
| "exec (SP_Swap h other) s = lift (SharedPtr_Swap h other s)"
| "exec (WP_default w) s = lift (WeakPtr_default w s)"
| "exec (WP_copy w other) s = lift (WeakPtr_copy w other s)"
| "exec (WP_move w other) s = lift (WeakPtr_move w other s)"
| "exec (WP_from_shared w sp) s = lift (WeakPtr_from_shared w sp s)"
| "exec (WP_assign_shared w sp) s = lift (WeakPtr_assign_shared w sp s)"
| "exec (WP_assign_copy w other) s = lift (WeakPtr_assign_copy w other s)"
| "exec (WP_assign_move w other) s = lift (WeakPtr_assign_move w other s)"
| "exec (WP_dtor w) s = lift (WeakPtr_dtor w s)"
| "exec (WP_Reset w) s = lift (WeakPtr_Reset w s)"
| "exec (WP_Swap w other) s = lift (WeakPtr_Swap w other s)"
| "exec (WP_Lock w h) s = WeakPtr_Lock w h s"
| "exec (Make_Shared h) s = lift (MakeShared h s)"

text \<open>
  A program is a list of operations run in order. After a \<open>throw\<close> the caller catches the
  exception and goes on from the state at the \<open>throw\<close>; an undefined operation ends the
  run with \<open>None\<close>.
\<close>

fun run :: "op list \<Rightarrow> state \<Rightarrow> state option" where
  "run [] s = Some s"
| "run (x # xs) s =
     (case exec x s of
        Returns s' \<Rightarrow> run xs s'
      | Throws e s' \<Rightarrow> run xs s'
      | Undefined \<Rightarrow> None)"

section \<open>The counting invariant\<close>

text \<open>
  \<open>refs m c\<close> is the set of live handles of the store \<open>m\<close> whose \<open>counter_\<close> is the
  block \<open>c\<close>. A handle is well formed when its two fields are null together and its
  block, if any, is allocated. The invariant says that no handle lives at the null
  address, every live handle is well formed, every allocated block lies below the
  allocator's next address, and its two counts are the numbers of live strong and weak
  handles that refer to it.
\<close>

definition refs :: "(hid \<rightharpoonup> Ptr) \<Rightarrow> addr \<Rightarrow> hid set" where
  "refs m c = {h. \<exists>x. m h = Some x \<and> counter x = Some c}"

definition handle_ok :: "(addr \<rightharpoonup> Counter) \<Rightarrow> Ptr \<Rightarrow> bool" where
  "handle_ok bs x \<longleftrightarrow> (ptr x = None \<longleftrightarrow> counter x = None) \<and> (\<forall>c. counter x = Some c \<longrightarrow> bs c \<noteq> None)"

definition counts_ok :: "state \<Rightarrow> bool" where
  "counts_ok s \<longleftrightarrow> (\<forall>c b. blocks s c = Some b \<longrightarrow>
      c < next_block s \<and> unat (strong_count b) = card (refs (shared s) c) \<and> unat (weak_count b) = card (refs (weak s) c))"

definition invar :: "state \<Rightarrow> bool" where
  "invar s \<longleftrightarrow> shared s 0 = None \<and> weak s 0 = None \<and>
     (\<forall>h x. shared s h = Some x \<longrightarrow> handle_ok (blocks s) x) \<and>
     (\<forall>h x. weak s h = Some x \<longrightarrow> handle_ok (blocks s) x) \<and>
     counts_ok s"

text \<open>
  While \<open>exec_calls\<close> runs, the counts are ahead of the stores: a handle whose destructor
  has started has left the store and its count is decremented only when its \<open>Release\<close>
  runs, and the handle on which an assignment or \<open>Reset\<close> has called \<open>Release\<close> is still
  in the store. \<open>pending_strong k c\<close> and \<open>pending_weak k c\<close> count the calls of
  \<open>Release\<close> in \<open>k\<close> that are to decrement the block \<open>c\<close>. \<open>calls_invar E k s\<close> is the
  invariant with the pending calls \<open>k\<close> added to the numbers of handles and with the
  \<open>SharedPtr\<close>s in \<open>E\<close> left out of them; it also says that the blocks of the pending
  calls of \<open>Release\<close> are allocated and that a block whose \<open>Release\<close> is to resume has
  \<open>strong_count = 0\<close>.
\<close>

fun pending_strong :: "call list \<Rightarrow> addr \<Rightarrow> nat" where
  "pending_strong [] c = 0"
| "pending_strong (Call_Release x # k) c = (if counter x = Some c then 1 else 0) + pending_strong k c"
| "pending_strong (a # k) c = pending_strong k c"

fun pending_weak :: "call list \<Rightarrow> addr \<Rightarrow> nat" where
  "pending_weak [] c = 0"
| "pending_weak (Call_Weak_Release x # k) c = (if counter x = Some c then 1 else 0) + pending_weak k c"
| "pending_weak (a # k) c = pending_weak k c"

definition calls_invar :: "hid set \<Rightarrow> call list \<Rightarrow> state \<Rightarrow> bool" where
  "calls_invar E k s \<longleftrightarrow> shared s 0 = None \<and> weak s 0 = None \<and>
     (\<forall>h x. shared s h = Some x \<longrightarrow>
        (ptr x = None \<longleftrightarrow> counter x = None) \<and>
        (h \<notin> E \<longrightarrow> (\<forall>c. counter x = Some c \<longrightarrow> blocks s c \<noteq> None))) \<and>
     (\<forall>w x. weak s w = Some x \<longrightarrow> handle_ok (blocks s) x) \<and>
     (\<forall>x c. Call_Release x \<in> set k \<or> Call_Weak_Release x \<in> set k \<longrightarrow>
        counter x = Some c \<longrightarrow> blocks s c \<noteq> None) \<and>
     (\<forall>c b. Resume_Release c \<in> set k \<longrightarrow> blocks s c = Some b \<longrightarrow> strong_count b = 0) \<and>
     (\<forall>c b. blocks s c = Some b \<longrightarrow>
        c < next_block s \<and>
        unat (strong_count b) = card (refs (shared s) c - E) + pending_strong k c \<and>
        unat (weak_count b) = card (refs (weak s) c) + pending_weak k c)"




fun resumes :: "call list \<Rightarrow> addr list" where
  "resumes [] = []"
| "resumes (Resume_Release c # k) = c # resumes k"
| "resumes (a # k) = resumes k"

text \<open>
  \<open>stores_no_handle s p\<close>: no handle is alive in a member of the object \<open>p\<close> points to,
  so that \<open>delete p\<close> runs no destructor of a handle. \<open>plain_release h s\<close>: a call
  of \<open>Release\<close> on \<open>h\<close> deletes no object that stores a live handle, because \<open>h\<close> is
  null, or is not the last owner, or its object stores none. \<open>logged p s\<close> is \<open>s\<close> with
  the deletion of the object \<open>p\<close> points to appended to the log.
\<close>

definition member_alive :: "state \<Rightarrow> member \<Rightarrow> bool" where
  "member_alive s m = (case m of Strong h \<Rightarrow> shared s h \<noteq> None | Weak w \<Rightarrow> weak s w \<noteq> None)"

definition stores_no_handle :: "state \<Rightarrow> addr option \<Rightarrow> bool" where
  "stores_no_handle s p =
     (case p of None \<Rightarrow> True | Some a \<Rightarrow> \<forall>m \<in> set (layout s a). \<not> member_alive s m)"

definition plain_release :: "hid \<Rightarrow> state \<Rightarrow> bool" where
  "plain_release h s =
     (case shared s h of
        None \<Rightarrow> True
      | Some x \<Rightarrow>
         (case counter x of
            None \<Rightarrow> True
          | Some c \<Rightarrow>
             (case blocks s c of
                None \<Rightarrow> True
              | Some b \<Rightarrow> strong_count b = 1 \<longrightarrow> stores_no_handle s (ptr x))))"

definition logged :: "addr option \<Rightarrow> state \<Rightarrow> state" where
  "logged p s = (case p of None \<Rightarrow> s | Some a \<Rightarrow> s\<lparr>destroyed := destroyed s @ [a]\<rparr>)"


section \<open>Example states\<close>

text \<open>
  States that short programs reach, used to instantiate the theorems below. The first
  three: one object at address 7 with control block 0, held by two \<open>SharedPtr\<close>s and
  one \<open>WeakPtr\<close>; the same with a single \<open>SharedPtr\<close>; and the same after that single
  \<open>SharedPtr\<close> has been reset, so that the \<open>WeakPtr\<close> is expired.
\<close>

definition two_owners :: state where
  "two_owners = \<lparr>blocks = [0 \<mapsto> \<lparr>strong_count = 2, weak_count = 1\<rparr>],
      shared = [1 \<mapsto> \<lparr>ptr = Some 7, counter = Some 0\<rparr>, 2 \<mapsto> \<lparr>ptr = Some 7, counter = Some 0\<rparr>],
      weak = [1 \<mapsto> \<lparr>ptr = Some 7, counter = Some 0\<rparr>],
      layout = no_members, next_block = 1, next_obj = 0, destroyed = [], freed = []\<rparr>"

definition sole_owner :: state where
  "sole_owner = \<lparr>blocks = [0 \<mapsto> \<lparr>strong_count = 1, weak_count = 1\<rparr>],
      shared = [1 \<mapsto> \<lparr>ptr = Some 7, counter = Some 0\<rparr>],
      weak = [1 \<mapsto> \<lparr>ptr = Some 7, counter = Some 0\<rparr>],
      layout = no_members, next_block = 1, next_obj = 0, destroyed = [], freed = []\<rparr>"

definition expired_weak :: state where
  "expired_weak = \<lparr>blocks = [0 \<mapsto> \<lparr>strong_count = 0, weak_count = 1\<rparr>],
      shared = [1 \<mapsto> \<lparr>ptr = None, counter = None\<rparr>],
      weak = [1 \<mapsto> \<lparr>ptr = Some 7, counter = Some 0\<rparr>],
      layout = no_members, next_block = 1, next_obj = 0, destroyed = [7], freed = []\<rparr>"

text \<open>Two objects, 7 and 8, each with its own block; a \<open>WeakPtr\<close> observes the first.\<close>

definition two_blocks :: state where
  "two_blocks = \<lparr>blocks = [0 \<mapsto> \<lparr>strong_count = 1, weak_count = 1\<rparr>,
                              1 \<mapsto> \<lparr>strong_count = 1, weak_count = 0\<rparr>],
      shared = [1 \<mapsto> \<lparr>ptr = Some 7, counter = Some 0\<rparr>, 2 \<mapsto> \<lparr>ptr = Some 8, counter = Some 1\<rparr>],
      weak = [1 \<mapsto> \<lparr>ptr = Some 7, counter = Some 0\<rparr>],
      layout = no_members, next_block = 2, next_obj = 0, destroyed = [], freed = []\<rparr>"

text \<open>One object with one \<open>SharedPtr\<close> and two \<open>WeakPtr\<close>s.\<close>

definition two_observers :: state where
  "two_observers = \<lparr>blocks = [0 \<mapsto> \<lparr>strong_count = 1, weak_count = 2\<rparr>],
      shared = [1 \<mapsto> \<lparr>ptr = Some 7, counter = Some 0\<rparr>],
      weak = [1 \<mapsto> \<lparr>ptr = Some 7, counter = Some 0\<rparr>, 2 \<mapsto> \<lparr>ptr = Some 7, counter = Some 0\<rparr>],
      layout = no_members, next_block = 1, next_obj = 0, destroyed = [], freed = []\<rparr>"

text \<open>
  A program with objects that store handles: \<open>struct Node { SharedPtr<Node> next; }\<close>
  with two nodes, at the addresses 1 and 2, whose members \<open>next\<close> are at the addresses
  10 and 20. In \<open>linked\<close>, the \<open>SharedPtr\<close> 1 and the \<open>WeakPtr\<close> 1 refer to the node 2
  (block 0), the \<open>SharedPtr\<close> 2 is the only owner of the node 1 (block 1), and the member
  \<open>next\<close> of the node 1 is a second owner of the node 2.
\<close>

definition node_layout :: "addr \<Rightarrow> member list" where
  "node_layout a = (if a = 1 then [Strong 10] else if a = 2 then [Strong 20] else [])"

definition linked :: state where
  "linked = \<lparr>blocks = [0 \<mapsto> \<lparr>strong_count = 2, weak_count = 1\<rparr>,
                          1 \<mapsto> \<lparr>strong_count = 1, weak_count = 0\<rparr>],
      shared = [20 \<mapsto> \<lparr>ptr = None, counter = None\<rparr>, 1 \<mapsto> \<lparr>ptr = Some 2, counter = Some 0\<rparr>,
                10 \<mapsto> \<lparr>ptr = Some 2, counter = Some 0\<rparr>, 2 \<mapsto> \<lparr>ptr = Some 1, counter = Some 1\<rparr>],
      weak = [1 \<mapsto> \<lparr>ptr = Some 2, counter = Some 0\<rparr>],
      layout = node_layout, next_block = 2, next_obj = 0, destroyed = [], freed = []\<rparr>"

text \<open>
  \<open>struct Observer { WeakPtr<Observer> self; }\<close> with one object, at the address 1,
  whose member \<open>self\<close> is at the address 10.
\<close>

definition observer_layout :: "addr \<Rightarrow> member list" where
  "observer_layout a = (if a = 1 then [Weak 10] else [])"

section \<open>Auxiliary facts\<close>

subsection \<open>Reference sets and pending calls\<close>

lemma refs_upd: "refs (m(h \<mapsto> x)) c = (if counter x = Some c then insert h (refs m c) else refs m c - {h})"
  by (auto simp: refs_def)

lemma refs_del: "refs (m(h := None)) c = refs m c - {h}"
  by (auto simp: refs_def)

lemma refs_mem: "m h = Some x \<Longrightarrow> h \<in> refs m c \<longleftrightarrow> counter x = Some c"
  by (auto simp: refs_def)

lemma refs_notin: "m h = None \<Longrightarrow> h \<notin> refs m c"
  by (auto simp: refs_def)

lemma exec_calls_frame:
  "exec_calls k s = Some s1 \<Longrightarrow>
     (\<forall>h x. shared s1 h = Some x \<longrightarrow> shared s h = Some x) \<and>
     (\<forall>w x. weak s1 w = Some x \<longrightarrow> weak s w = Some x) \<and>
     layout s1 = layout s \<and> next_block s1 = next_block s \<and> next_obj s1 = next_obj s"
proof (induction k s rule: exec_calls.induct)
  case (1 s)
  then show ?case by simp
next
  case (2 this k s)
  then show ?case
    by (auto split: option.splits if_splits simp del: exec_calls.simps simp add: exec_calls.simps(2))
next
  case (3 c k s)
  then show ?case
    by (auto simp: delete_Counter_def split: option.splits if_splits
             simp del: exec_calls.simps simp add: exec_calls.simps(3))
next
  case (4 this k s)
  then show ?case
    by (auto simp: delete_Counter_def split: option.splits if_splits
             simp del: exec_calls.simps simp add: exec_calls.simps(4))
next
  case (5 h k s)
  show ?case
  proof (cases "shared s h")
    case None
    then have "exec_calls k s = Some s1" using "5.prems" by simp
    from "5.IH"(1) [OF None this] show ?thesis .
  next
    case (Some x)
    then have "exec_calls (Call_Release x # k) (s\<lparr>shared := (shared s)(h := None)\<rparr>) = Some s1"
      using "5.prems" by (simp del: exec_calls.simps add: exec_calls.simps(5))
    from "5.IH"(2) [OF Some this]
    have "(\<forall>h' x. shared s1 h' = Some x \<longrightarrow> ((shared s)(h := None)) h' = Some x) \<and>
          (\<forall>w x. weak s1 w = Some x \<longrightarrow> weak s w = Some x) \<and>
          layout s1 = layout s \<and> next_block s1 = next_block s \<and> next_obj s1 = next_obj s"
      by simp
    then show ?thesis by (metis fun_upd_apply option.distinct(1))
  qed
next
  case (6 w k s)
  show ?case
  proof (cases "weak s w")
    case None
    then have "exec_calls k s = Some s1" using "6.prems" by simp
    from "6.IH"(1) [OF None this] show ?thesis .
  next
    case (Some x)
    then have "exec_calls (Call_Weak_Release x # k) (s\<lparr>weak := (weak s)(w := None)\<rparr>) = Some s1"
      using "6.prems" by (simp del: exec_calls.simps add: exec_calls.simps(6))
    from "6.IH"(2) [OF Some this]
    have "(\<forall>h x. shared s1 h = Some x \<longrightarrow> shared s h = Some x) \<and>
          (\<forall>w' x. weak s1 w' = Some x \<longrightarrow> ((weak s)(w := None)) w' = Some x) \<and>
          layout s1 = layout s \<and> next_block s1 = next_block s \<and> next_obj s1 = next_obj s"
      by simp
    then show ?thesis by (metis fun_upd_apply option.distinct(1))
  qed
qed

lemma pending_strong_dtors [simp]: "pending_strong (map Call_dtor ms @ k) c = pending_strong k c"
  by (induction ms) auto

lemma pending_weak_dtors [simp]: "pending_weak (map Call_dtor ms @ k) c = pending_weak k c"
  by (induction ms) auto

lemma pending_strong_0: "pending_strong k c = 0 \<Longrightarrow> Call_Release x \<in> set k \<Longrightarrow> counter x \<noteq> Some c"
  by (induction k c rule: pending_strong.induct) (auto split: if_splits)

lemma pending_weak_0: "pending_weak k c = 0 \<Longrightarrow> Call_Weak_Release x \<in> set k \<Longrightarrow> counter x \<noteq> Some c"
  by (induction k c rule: pending_weak.induct) (auto split: if_splits)

lemma invar_calls_invar: "invar s \<longleftrightarrow> calls_invar {} [] s"
  by (auto simp: invar_def calls_invar_def counts_ok_def handle_ok_def)

lemma ci_I:
  assumes "shared s 0 = None" "weak s 0 = None"
    and "\<And>h x. shared s h = Some x \<Longrightarrow> (ptr x = None) = (counter x = None)"
    and "\<And>h x c. shared s h = Some x \<Longrightarrow> h \<notin> E \<Longrightarrow> counter x = Some c \<Longrightarrow> blocks s c \<noteq> None"
    and "\<And>w x. weak s w = Some x \<Longrightarrow> handle_ok (blocks s) x"
    and "\<And>x c. Call_Release x \<in> set k \<or> Call_Weak_Release x \<in> set k \<Longrightarrow> counter x = Some c \<Longrightarrow>
           blocks s c \<noteq> None"
    and "\<And>c b. Resume_Release c \<in> set k \<Longrightarrow> blocks s c = Some b \<Longrightarrow> strong_count b = 0"
    and "\<And>c b. blocks s c = Some b \<Longrightarrow> c < next_block s"
    and "\<And>c b. blocks s c = Some b \<Longrightarrow>
           unat (strong_count b) = card (refs (shared s) c - E) + pending_strong k c"
    and "\<And>c b. blocks s c = Some b \<Longrightarrow>
           unat (weak_count b) = card (refs (weak s) c) + pending_weak k c"
  shows "calls_invar E k s"
  unfolding calls_invar_def using assms by blast

lemma ci_null: "calls_invar E k s \<Longrightarrow> shared s 0 = None \<and> weak s 0 = None"
  by (simp add: calls_invar_def)

lemma ci_fields: "calls_invar E k s \<Longrightarrow> shared s h = Some x \<Longrightarrow> (ptr x = None) = (counter x = None)"
  by (simp add: calls_invar_def)

lemma ci_alloc:
  "calls_invar E k s \<Longrightarrow> shared s h = Some x \<Longrightarrow> h \<notin> E \<Longrightarrow> counter x = Some c \<Longrightarrow> blocks s c \<noteq> None"
  by (simp add: calls_invar_def)

lemma ci_weak: "calls_invar E k s \<Longrightarrow> weak s w = Some x \<Longrightarrow> handle_ok (blocks s) x"
  by (simp add: calls_invar_def)

lemma ci_pending:
  "calls_invar E k s \<Longrightarrow> Call_Release x \<in> set k \<or> Call_Weak_Release x \<in> set k \<Longrightarrow>
   counter x = Some c \<Longrightarrow> blocks s c \<noteq> None"
  unfolding calls_invar_def by blast

lemma ci_resumed:
  "calls_invar E k s \<Longrightarrow> Resume_Release c \<in> set k \<Longrightarrow> blocks s c = Some b \<Longrightarrow> strong_count b = 0"
  unfolding calls_invar_def by blast

lemma ci_counts:
  "calls_invar E k s \<Longrightarrow> blocks s c = Some b \<Longrightarrow>
     c < next_block s \<and>
     unat (strong_count b) = card (refs (shared s) c - E) + pending_strong k c \<and>
     unat (weak_count b) = card (refs (weak s) c) + pending_weak k c"
  by (simp add: calls_invar_def)

lemma calls_invar_eqI:
  "calls_invar E k s \<Longrightarrow> blocks s' = blocks s \<Longrightarrow> shared s' = shared s \<Longrightarrow> weak s' = weak s \<Longrightarrow>
   next_block s' = next_block s \<Longrightarrow> calls_invar E k s'"
  by (simp add: calls_invar_def)

lemma ci_drop_dtor: "calls_invar E (Call_dtor m # k) s \<Longrightarrow> calls_invar E k s"
  by (simp add: calls_invar_def)

lemma ci_drop_resume: "calls_invar E (Resume_Release c # k) s \<Longrightarrow> calls_invar E k s"
  by (simp add: calls_invar_def)

lemma ci_drop_null:
  "counter x = None \<Longrightarrow> calls_invar E (Call_Release x # k) s \<Longrightarrow> calls_invar E k s"
  by (simp add: calls_invar_def)

lemma ci_drop_null_weak:
  "counter x = None \<Longrightarrow> calls_invar E (Call_Weak_Release x # k) s \<Longrightarrow> calls_invar E k s"
  by (simp add: calls_invar_def)

lemma ci_push:
  assumes "calls_invar E k s" "\<And>b. blocks s c = Some b \<Longrightarrow> strong_count b = 0"
  shows "calls_invar E (map Call_dtor ms @ Resume_Release c # k) s"
proof (rule ci_I)
  fix x c' assume "Call_Release x \<in> set (map Call_dtor ms @ Resume_Release c # k) \<or>
                   Call_Weak_Release x \<in> set (map Call_dtor ms @ Resume_Release c # k)"
    "counter x = Some c'"
  then show "blocks s c' \<noteq> None" using ci_pending [OF assms(1), of x c'] by auto
next
  fix c' b assume "Resume_Release c' \<in> set (map Call_dtor ms @ Resume_Release c # k)" "blocks s c' = Some b"
  then show "strong_count b = 0" using ci_resumed [OF assms(1), of c' b] assms(2) by auto
qed (use assms(1) in \<open>simp_all add: ci_null ci_fields ci_alloc ci_weak ci_counts\<close>)

lemma unat_pred:
  assumes "unat (w :: 64 word) = Suc n" shows "unat (w - 1) = n"
proof -
  have "w \<noteq> 0" using assms by auto
  then show ?thesis using assms by (simp add: unat_minus_one)
qed

lemma ci_release:
  assumes "calls_invar E (Call_Release x # k) s" "counter x = Some c" "blocks s c = Some b"
  shows "calls_invar E k (s\<lparr>blocks := (blocks s)(c \<mapsto> b\<lparr>strong_count := strong_count b - 1\<rparr>)\<rparr>)"
    (is "calls_invar E k ?s'")
proof (rule ci_I)
  have n: "unat (strong_count b) = Suc (card (refs (shared s) c - E) + pending_strong k c)"
    using ci_counts [OF assms(1,3)] assms(2) by simp
  then have d: "unat (strong_count b - 1) = card (refs (shared s) c - E) + pending_strong k c"
    by (rule unat_pred)
  have nz: "strong_count b \<noteq> 0" using n by auto
  have nr: "Resume_Release c \<notin> set k"
    using ci_resumed [OF assms(1), of c b] assms(3) nz by auto
  show "shared ?s' 0 = None" "weak ?s' 0 = None" using ci_null [OF assms(1)] by simp_all
  show "(ptr y = None) = (counter y = None)" if "shared ?s' h = Some y" for h y
    using ci_fields [OF assms(1), of h y] that by simp
  show "blocks ?s' c' \<noteq> None" if "shared ?s' h = Some y" "h \<notin> E" "counter y = Some c'" for h y c'
    using ci_alloc [OF assms(1), of h y c'] that by simp
  show "handle_ok (blocks ?s') y" if "weak ?s' w = Some y" for w y
    using ci_weak [OF assms(1), of w y] that by (auto simp: handle_ok_def)
  show "blocks ?s' c' \<noteq> None"
    if "Call_Release y \<in> set k \<or> Call_Weak_Release y \<in> set k" "counter y = Some c'" for y c'
    using ci_pending [OF assms(1), of y c'] that by auto
  show "strong_count b' = 0" if "Resume_Release c' \<in> set k" "blocks ?s' c' = Some b'" for c' b'
    using ci_resumed [OF assms(1), of c' b'] that nr by (auto split: if_splits)
  show "c' < next_block ?s'" if "blocks ?s' c' = Some b'" for c' b'
    using ci_counts [OF assms(1), of c'] assms(3) that by (auto split: if_splits)
  show "unat (strong_count b') = card (refs (shared ?s') c' - E) + pending_strong k c'"
    if "blocks ?s' c' = Some b'" for c' b'
    using ci_counts [OF assms(1), of c' b'] assms(2) that d by (auto split: if_splits)
  show "unat (weak_count b') = card (refs (weak ?s') c') + pending_weak k c'"
    if "blocks ?s' c' = Some b'" for c' b'
    using ci_counts [OF assms(1), of c'] assms(3) that by (auto split: if_splits)
qed

lemma card_Suc_remove:
  assumes "h \<in> S" "finite S" shows "Suc (card (S - {h})) = card S"
  using card.remove [OF assms(2,1)] by simp

lemma ci_dtor_strong:
  assumes "calls_invar E (Call_dtor (Strong h) # k) s" "shared s h = Some x" "h \<notin> E"
  shows "calls_invar E (Call_Release x # k) (s\<lparr>shared := (shared s)(h := None)\<rparr>)"
    (is "calls_invar E ?k' ?s'")
proof (rule ci_I)
  have r: "card (refs ((shared s)(h := None)) c - E) + (if counter x = Some c then 1 else 0)
           = card (refs (shared s) c - E)" for c
  proof (cases "counter x = Some c")
    case True
    then have "h \<in> refs (shared s) c - E" using assms(2,3) by (simp add: refs_mem)
    then have "Suc (card ((refs (shared s) c - E) - {h})) = card (refs (shared s) c - E)"
      by (intro card_Suc_remove) auto
    moreover have "refs ((shared s)(h := None)) c - E = (refs (shared s) c - E) - {h}"
      by (auto simp: refs_del)
    ultimately show ?thesis using True by simp
  next
    case False
    then have "h \<notin> refs (shared s) c" using assms(2) by (simp add: refs_mem)
    then show ?thesis using False by (simp add: refs_del)
  qed
  show "shared ?s' 0 = None" "weak ?s' 0 = None" using ci_null [OF assms(1)] by simp_all
  show "(ptr y = None) = (counter y = None)" if "shared ?s' h' = Some y" for h' y
    using ci_fields [OF assms(1), of h' y] that by (simp split: if_splits)
  show "blocks ?s' c' \<noteq> None" if "shared ?s' h' = Some y" "h' \<notin> E" "counter y = Some c'" for h' y c'
    using ci_alloc [OF assms(1), of h' y c'] that by (simp split: if_splits)
  show "handle_ok (blocks ?s') y" if "weak ?s' w = Some y" for w y
    using ci_weak [OF assms(1), of w y] that by simp
  show "blocks ?s' c' \<noteq> None"
    if "Call_Release y \<in> set ?k' \<or> Call_Weak_Release y \<in> set ?k'" "counter y = Some c'" for y c'
    using ci_pending [OF assms(1), of y c'] ci_alloc [OF assms(1,2,3), of c'] that by auto
  show "strong_count b' = 0" if "Resume_Release c' \<in> set ?k'" "blocks ?s' c' = Some b'" for c' b'
    using ci_resumed [OF assms(1), of c' b'] that by simp
  show "c' < next_block ?s'" if "blocks ?s' c' = Some b'" for c' b'
    using ci_counts [OF assms(1), of c' b'] that by simp
  show "unat (strong_count b') = card (refs (shared ?s') c' - E) + pending_strong ?k' c'"
    if "blocks ?s' c' = Some b'" for c' b'
    using ci_counts [OF assms(1), of c' b'] that r [of c'] by simp
  show "unat (weak_count b') = card (refs (weak ?s') c') + pending_weak ?k' c'"
    if "blocks ?s' c' = Some b'" for c' b'
    using ci_counts [OF assms(1), of c' b'] that by simp
qed

lemma ci_dtor_weak:
  assumes "calls_invar E (Call_dtor (Weak w) # k) s" "weak s w = Some x"
  shows "calls_invar E (Call_Weak_Release x # k) (s\<lparr>weak := (weak s)(w := None)\<rparr>)"
    (is "calls_invar E ?k' ?s'")
proof (rule ci_I)
  have r: "card (refs ((weak s)(w := None)) c) + (if counter x = Some c then 1 else 0)
           = card (refs (weak s) c)" for c
  proof (cases "counter x = Some c")
    case True
    then have "w \<in> refs (weak s) c" using assms(2) by (simp add: refs_mem)
    then have "Suc (card (refs (weak s) c - {w})) = card (refs (weak s) c)"
      by (intro card_Suc_remove) auto
    then show ?thesis using True by (simp add: refs_del)
  next
    case False
    then have "w \<notin> refs (weak s) c" using assms(2) by (simp add: refs_mem)
    then show ?thesis using False by (simp add: refs_del)
  qed
  have ok: "blocks s c \<noteq> None" if "counter x = Some c" for c
    using ci_weak [OF assms] that by (auto simp: handle_ok_def)
  show "shared ?s' 0 = None" "weak ?s' 0 = None" using ci_null [OF assms(1)] by simp_all
  show "(ptr y = None) = (counter y = None)" if "shared ?s' h' = Some y" for h' y
    using ci_fields [OF assms(1), of h' y] that by simp
  show "blocks ?s' c' \<noteq> None" if "shared ?s' h' = Some y" "h' \<notin> E" "counter y = Some c'" for h' y c'
    using ci_alloc [OF assms(1), of h' y c'] that by simp
  show "handle_ok (blocks ?s') y" if "weak ?s' w' = Some y" for w' y
    using ci_weak [OF assms(1), of w' y] that by (simp split: if_splits)
  show "blocks ?s' c' \<noteq> None"
    if "Call_Release y \<in> set ?k' \<or> Call_Weak_Release y \<in> set ?k'" "counter y = Some c'" for y c'
    using ci_pending [OF assms(1), of y c'] ok [of c'] that by auto
  show "strong_count b' = 0" if "Resume_Release c' \<in> set ?k'" "blocks ?s' c' = Some b'" for c' b'
    using ci_resumed [OF assms(1), of c' b'] that by simp
  show "c' < next_block ?s'" if "blocks ?s' c' = Some b'" for c' b'
    using ci_counts [OF assms(1), of c' b'] that by simp
  show "unat (strong_count b') = card (refs (shared ?s') c' - E) + pending_strong ?k' c'"
    if "blocks ?s' c' = Some b'" for c' b'
    using ci_counts [OF assms(1), of c' b'] that by simp
  show "unat (weak_count b') = card (refs (weak ?s') c') + pending_weak ?k' c'"
    if "blocks ?s' c' = Some b'" for c' b'
    using ci_counts [OF assms(1), of c' b'] that r [of c'] by simp
qed

text \<open>A block with both counts 0 can go: nothing refers to it.\<close>

lemma ci_delete:
  assumes "calls_invar E k s" "blocks s c = Some b" "strong_count b = 0" "weak_count b = 0"
  shows "calls_invar E k (delete_Counter c s)" (is "calls_invar E k ?s'")
proof (rule ci_I)
  have z: "card (refs (shared s) c - E) = 0" "pending_strong k c = 0"
    "card (refs (weak s) c) = 0" "pending_weak k c = 0"
    using ci_counts [OF assms(1,2)] assms(3,4) by simp_all
  then have e: "refs (shared s) c - E = {}" "refs (weak s) c = {}" by auto
  have s: "counter x \<noteq> Some c" if "shared s h = Some x" "h \<notin> E" for h x
    using e(1) that by (auto simp: refs_def)
  have w: "counter x \<noteq> Some c" if "weak s h = Some x" for h x
    using e(2) that by (auto simp: refs_def)
  have p: "counter x \<noteq> Some c" if "Call_Release x \<in> set k \<or> Call_Weak_Release x \<in> set k" for x
    using that z(2,4) pending_strong_0 pending_weak_0 by blast
  have bl: "blocks ?s' = (blocks s)(c := None)" and sh: "shared ?s' = shared s"
    and wk: "weak ?s' = weak s" and nb: "next_block ?s' = next_block s"
    by (simp_all add: delete_Counter_def)
  show "shared ?s' 0 = None" "weak ?s' 0 = None" using ci_null [OF assms(1)] sh wk by simp_all
  show "(ptr y = None) = (counter y = None)" if "shared ?s' h' = Some y" for h' y
    using ci_fields [OF assms(1), of h' y] that sh by simp
  show "blocks ?s' c' \<noteq> None" if "shared ?s' h' = Some y" "h' \<notin> E" "counter y = Some c'" for h' y c'
    using ci_alloc [OF assms(1), of h' y c'] s [of h' y] that sh bl by auto
  show "handle_ok (blocks ?s') y" if "weak ?s' w' = Some y" for w' y
    using ci_weak [OF assms(1), of w' y] w [of w' y] that wk bl by (auto simp: handle_ok_def)
  show "blocks ?s' c' \<noteq> None"
    if "Call_Release y \<in> set k \<or> Call_Weak_Release y \<in> set k" "counter y = Some c'" for y c'
    using ci_pending [OF assms(1) that] p [OF that(1)] that(2) bl by auto
  show "strong_count b' = 0" if "Resume_Release c' \<in> set k" "blocks ?s' c' = Some b'" for c' b'
    using ci_resumed [OF assms(1), of c' b'] that bl by (auto split: if_splits)
  show "c' < next_block ?s'" if "blocks ?s' c' = Some b'" for c' b'
    using ci_counts [OF assms(1), of c' b'] that bl nb by (auto split: if_splits)
  show "unat (strong_count b') = card (refs (shared ?s') c' - E) + pending_strong k c'"
    if "blocks ?s' c' = Some b'" for c' b'
    using ci_counts [OF assms(1), of c' b'] that bl sh by (auto split: if_splits)
  show "unat (weak_count b') = card (refs (weak ?s') c') + pending_weak k c'"
    if "blocks ?s' c' = Some b'" for c' b'
    using ci_counts [OF assms(1), of c' b'] that bl wk by (auto split: if_splits)
qed

lemma ci_resume:
  assumes "calls_invar E (Resume_Release c # k) s" "blocks s c = Some b"
  shows "calls_invar E k (if weak_count b = 0 then delete_Counter c s else s)"
proof -
  have k: "calls_invar E k s" using assms(1) by (rule ci_drop_resume)
  have "strong_count b = 0" using ci_resumed [OF assms(1), of c b] assms(2) by simp
  then show ?thesis using k ci_delete [OF k assms(2)] by simp
qed

lemma ci_weak_release:
  assumes "calls_invar E (Call_Weak_Release x # k) s" "counter x = Some c" "blocks s c = Some b"
  shows "calls_invar E k
     (if weak_count b - 1 = 0 \<and> strong_count b = 0
      then delete_Counter c (s\<lparr>blocks := (blocks s)(c \<mapsto> b\<lparr>weak_count := weak_count b - 1\<rparr>)\<rparr>)
      else s\<lparr>blocks := (blocks s)(c \<mapsto> b\<lparr>weak_count := weak_count b - 1\<rparr>)\<rparr>)"
proof -
  let ?s' = "s\<lparr>blocks := (blocks s)(c \<mapsto> b\<lparr>weak_count := weak_count b - 1\<rparr>)\<rparr>"
  have n: "unat (weak_count b) = Suc (card (refs (weak s) c) + pending_weak k c)"
    using ci_counts [OF assms(1,3)] assms(2) by simp
  then have d: "unat (weak_count b - 1) = card (refs (weak s) c) + pending_weak k c"
    by (rule unat_pred)
  have 1: "calls_invar E k ?s'"
  proof (rule ci_I)
    show "shared ?s' 0 = None" "weak ?s' 0 = None" using ci_null [OF assms(1)] by simp_all
    show "(ptr y = None) = (counter y = None)" if "shared ?s' h = Some y" for h y
      using ci_fields [OF assms(1), of h y] that by simp
    show "blocks ?s' c' \<noteq> None" if "shared ?s' h = Some y" "h \<notin> E" "counter y = Some c'" for h y c'
      using ci_alloc [OF assms(1), of h y c'] that by simp
    show "handle_ok (blocks ?s') y" if "weak ?s' w = Some y" for w y
      using ci_weak [OF assms(1), of w y] that by (auto simp: handle_ok_def)
    show "blocks ?s' c' \<noteq> None"
      if "Call_Release y \<in> set k \<or> Call_Weak_Release y \<in> set k" "counter y = Some c'" for y c'
      using ci_pending [OF assms(1), of y c'] that by auto
    show "strong_count b' = 0" if "Resume_Release c' \<in> set k" "blocks ?s' c' = Some b'" for c' b'
      using ci_resumed [OF assms(1), of c'] that assms(3) by (auto split: if_splits)
    show "c' < next_block ?s'" if "blocks ?s' c' = Some b'" for c' b'
      using ci_counts [OF assms(1), of c'] assms(3) that by (auto split: if_splits)
    show "unat (strong_count b') = card (refs (shared ?s') c' - E) + pending_strong k c'"
      if "blocks ?s' c' = Some b'" for c' b'
      using ci_counts [OF assms(1), of c'] assms(3) that by (auto split: if_splits)
    show "unat (weak_count b') = card (refs (weak ?s') c') + pending_weak k c'"
      if "blocks ?s' c' = Some b'" for c' b'
      using ci_counts [OF assms(1), of c' b'] assms(2) that d by (auto split: if_splits)
  qed
  show ?thesis
    using 1 ci_delete [OF 1, of c "b\<lparr>weak_count := weak_count b - 1\<rparr>"] by simp
qed

subsection \<open>The invariant through a cascade of destructors\<close>

declare exec_calls.simps [simp del]

lemma calls_invar_exec:
  "exec_calls k s = Some s1 \<Longrightarrow> calls_invar E k s \<Longrightarrow> E \<subseteq> dom (shared s1) \<Longrightarrow> calls_invar E [] s1"
proof (induction k s rule: exec_calls.induct)
  case (1 s)
  then show ?case by (simp add: exec_calls.simps)
next
  case (2 this k s)
  note p = "2.prems"
  show ?case
  proof (cases "counter this")
    case None
    then have e: "exec_calls k s = Some s1" using p(1) by (simp add: exec_calls.simps)
    show ?thesis by (rule "2.IH"(1) [OF None e ci_drop_null [OF None p(2)] p(3)])
  next
    case (Some c)
    then obtain b where b: "blocks s c = Some b"
      using p(1) by (cases "blocks s c") (simp_all add: exec_calls.simps)
    let ?s1 = "s\<lparr>blocks := (blocks s)(c \<mapsto> b\<lparr>strong_count := strong_count b - 1\<rparr>)\<rparr>"
    have ci: "calls_invar E k ?s1" by (rule ci_release [OF p(2) Some b])
    show ?thesis
    proof (cases "strong_count b - 1 = 0")
      case False
      then have e: "exec_calls k ?s1 = Some s1"
        using p(1) Some b by (simp add: exec_calls.simps)
      show ?thesis by (rule "2.IH"(4) [OF Some b False e ci p(3)])
    next
      case True
      have z: "strong_count b' = 0" if "blocks ?s1 c = Some b'" for b'
        using that True by auto
      show ?thesis
      proof (cases "ptr this")
        case None
        then have e: "exec_calls (Resume_Release c # k) ?s1 = Some s1"
          using p(1) Some b True by (simp add: exec_calls.simps)
        have "calls_invar E (map Call_dtor [] @ Resume_Release c # k) ?s1"
          using ci z by (rule ci_push)
        then have "calls_invar E (Resume_Release c # k) ?s1" by simp
        then show ?thesis using "2.IH"(2) [OF Some b True None e _ p(3)] by blast
      next
        case (Some a)
        let ?s2 = "s\<lparr>blocks := (blocks s)(c \<mapsto> b\<lparr>strong_count := strong_count b - 1\<rparr>),
                      destroyed := destroyed s @ [a]\<rparr>"
        have e: "exec_calls (map Call_dtor (layout s a) @ Resume_Release c # k) ?s2 = Some s1"
          using p(1) \<open>counter this = Some c\<close> b True Some by (simp add: exec_calls.simps)
        have "calls_invar E (map Call_dtor (layout s a) @ Resume_Release c # k) ?s1"
          using ci z by (rule ci_push)
        then have "calls_invar E (map Call_dtor (layout s a) @ Resume_Release c # k) ?s2"
          by (rule calls_invar_eqI) simp_all
        then show ?thesis
          using "2.IH"(3) [OF \<open>counter this = Some c\<close> b True Some e _ p(3)] by blast
      qed
    qed
  qed
next
  case (3 c k s)
  note p = "3.prems"
  obtain b where b: "blocks s c = Some b"
    using p(1) by (cases "blocks s c") (simp_all add: exec_calls.simps)
  have ci: "calls_invar E k (if weak_count b = 0 then delete_Counter c s else s)"
    by (rule ci_resume [OF p(2) b])
  show ?case
  proof (cases "weak_count b = 0")
    case True
    then have e: "exec_calls k (delete_Counter c s) = Some s1"
      using p(1) b by (simp add: exec_calls.simps)
    show ?thesis using "3.IH"(1) [OF b True e _ p(3)] ci True by simp
  next
    case False
    then have e: "exec_calls k s = Some s1"
      using p(1) b by (simp add: exec_calls.simps)
    show ?thesis using "3.IH"(2) [OF b False e _ p(3)] ci False by simp
  qed
next
  case (4 this k s)
  note p = "4.prems"
  show ?case
  proof (cases "counter this")
    case None
    then have e: "exec_calls k s = Some s1" using p(1) by (simp add: exec_calls.simps)
    show ?thesis by (rule "4.IH"(1) [OF None e ci_drop_null_weak [OF None p(2)] p(3)])
  next
    case (Some c)
    then obtain b where b: "blocks s c = Some b"
      using p(1) by (cases "blocks s c") (simp_all add: exec_calls.simps)
    note ci = ci_weak_release [OF p(2) Some b]
    show ?thesis
    proof (cases "weak_count b - 1 = 0 \<and> strong_count b = 0")
      case True
      then have e: "exec_calls k (delete_Counter c
           (s\<lparr>blocks := (blocks s)(c \<mapsto> b\<lparr>weak_count := weak_count b - 1\<rparr>)\<rparr>)) = Some s1"
        using p(1) Some b by (simp add: exec_calls.simps)
      show ?thesis using "4.IH"(2) [OF Some b True e _ p(3)] ci True by simp
    next
      case False
      then have e: "exec_calls k (s\<lparr>blocks := (blocks s)(c \<mapsto> b\<lparr>weak_count := weak_count b - 1\<rparr>)\<rparr>) = Some s1"
        using p(1) Some b by (auto simp add: exec_calls.simps)
      show ?thesis using "4.IH"(3) [OF Some b False e _ p(3)] ci False by auto
    qed
  qed
next
  case (5 h k s)
  note p = "5.prems"
  show ?case
  proof (cases "shared s h")
    case None
    then have e: "exec_calls k s = Some s1" using p(1) by (simp add: exec_calls.simps)
    show ?thesis by (rule "5.IH"(1) [OF None e ci_drop_dtor [OF p(2)] p(3)])
  next
    case (Some x)
    then have e: "exec_calls (Call_Release x # k) (s\<lparr>shared := (shared s)(h := None)\<rparr>) = Some s1"
      using p(1) by (simp add: exec_calls.simps)
    have "shared s1 h = None"
    proof (cases "shared s1 h")
      case (Some a)
      have "\<forall>h' y. shared s1 h' = Some y \<longrightarrow> ((shared s)(h := None)) h' = Some y"
        using exec_calls_frame [OF e] by simp
      then have "((shared s)(h := None)) h = Some a" using Some by blast
      then show ?thesis by simp
    qed simp
    then have "h \<notin> E" using p(3) by auto
    then have "calls_invar E (Call_Release x # k) (s\<lparr>shared := (shared s)(h := None)\<rparr>)"
      by (rule ci_dtor_strong [OF p(2) Some])
    then show ?thesis by (rule "5.IH"(2) [OF Some e _ p(3)])
  qed
next
  case (6 w k s)
  note p = "6.prems"
  show ?case
  proof (cases "weak s w")
    case None
    then have e: "exec_calls k s = Some s1" using p(1) by (simp add: exec_calls.simps)
    show ?thesis by (rule "6.IH"(1) [OF None e ci_drop_dtor [OF p(2)] p(3)])
  next
    case (Some x)
    then have e: "exec_calls (Call_Weak_Release x # k) (s\<lparr>weak := (weak s)(w := None)\<rparr>) = Some s1"
      using p(1) by (simp add: exec_calls.simps)
    have "calls_invar E (Call_Weak_Release x # k) (s\<lparr>weak := (weak s)(w := None)\<rparr>)"
      by (rule ci_dtor_weak [OF p(2) Some])
    then show ?thesis by (rule "6.IH"(2) [OF Some e _ p(3)])
  qed
qed

subsection \<open>\<open>Release\<close> on a live handle\<close>

lemma card_refs_bound:
  assumes "m 0 = None" "h \<notin> refs m c" "h \<noteq> 0"
  shows "Suc (card (refs m c)) < 2 ^ 64"
proof -
  have "insert h (refs m c) \<subseteq> UNIV - {0}"
    using assms by (auto simp: refs_def)
  then have "card (insert h (refs m c)) \<le> card (UNIV - {0 :: 64 word})"
    by (intro card_mono) auto
  also have "\<dots> = 2 ^ 64 - 1"
    by (simp add: card_Diff_singleton card_word)
  finally show ?thesis using assms(2) by simp
qed

lemma unat_inc:
  assumes "unat (w :: 64 word) = n" "Suc n < 2 ^ 64"
  shows "unat (w + 1) = Suc n"
proof -
  have "unat w + unat (1 :: 64 word) < 2 ^ LENGTH(64)"
    using assms by simp
  then have "unat (w + 1) = unat w + unat (1 :: 64 word)"
    by (rule unat_add_lem [THEN iffD1])
  then show ?thesis using assms(1) by simp
qed

lemma unat_dec:
  assumes "unat (w :: 64 word) = card S" "h \<in> S" "finite S"
  shows "unat (w - 1) = card (S - {h})" and "w - 1 = 0 \<longleftrightarrow> S = {h}"
proof -
  have "card S \<noteq> 0" using assms by auto
  then have "w \<noteq> 0" using assms(1) by (metis unat_0)
  then show a: "unat (w - 1) = card (S - {h})" using assms by (simp add: unat_minus_one)
  have "w - 1 = 0 \<longleftrightarrow> unat (w - 1) = 0" by (simp add: unat_eq_0)
  also have "\<dots> \<longleftrightarrow> S - {h} = {}" using a assms(3) by simp
  also have "\<dots> \<longleftrightarrow> S = {h}" using assms(2) by auto
  finally show "w - 1 = 0 \<longleftrightarrow> S = {h}" .
qed

lemma invar_logs [simp]:
  "invar (s\<lparr>destroyed := d\<rparr>) = invar s"
  "invar (s\<lparr>freed := f\<rparr>) = invar s"
  "invar (s\<lparr>next_obj := n\<rparr>) = invar s"
  by (simp_all add: invar_def counts_ok_def)

lemma invar_eqI:
  "invar s \<Longrightarrow> blocks s' = blocks s \<Longrightarrow> shared s' = shared s \<Longrightarrow> weak s' = weak s \<Longrightarrow>
   next_block s' = next_block s \<Longrightarrow> invar s'"
  by (simp add: invar_def counts_ok_def)

lemma Ptr_eta [simp]: "\<lparr>ptr = ptr x, counter = counter x\<rparr> = (x :: Ptr)"
  by simp

lemma word_dec_0: "(w :: 64 word) - 1 = 0 \<longleftrightarrow> w = 1"
  by auto

lemma exec_calls_skip:
  assumes "\<forall>m \<in> set ms. \<not> member_alive s m"
  shows "exec_calls (map Call_dtor ms @ k) s = exec_calls k s"
  using assms
proof (induction ms)
  case Nil
  then show ?case by simp
next
  case (Cons m ms)
  then show ?case by (cases m) (simp_all add: member_alive_def exec_calls.simps)
qed

lemma SharedPtr_Release_null:
  "shared s h = Some x \<Longrightarrow> counter x = None \<Longrightarrow> SharedPtr_Release h s = Some s"
  by (simp add: SharedPtr_Release_def exec_calls.simps)

lemma SharedPtr_Release_block:
  assumes "shared s h = Some x" "counter x = Some c" "blocks s c = Some b"
    and "strong_count b = 1 \<Longrightarrow> stores_no_handle s (ptr x)"
  shows "SharedPtr_Release h s = Some
     (if strong_count b = 1
      then if weak_count b = 0
           then delete_Counter c (logged (ptr x) (s\<lparr>blocks := (blocks s)(c \<mapsto> b\<lparr>strong_count := strong_count b - 1\<rparr>)\<rparr>))
           else logged (ptr x) (s\<lparr>blocks := (blocks s)(c \<mapsto> b\<lparr>strong_count := strong_count b - 1\<rparr>)\<rparr>)
      else s\<lparr>blocks := (blocks s)(c \<mapsto> b\<lparr>strong_count := strong_count b - 1\<rparr>)\<rparr>)"
proof (cases "strong_count b = 1")
  case False
  then show ?thesis
    using assms(1-3) by (simp add: SharedPtr_Release_def exec_calls.simps word_dec_0)
next
  case True
  show ?thesis
  proof (cases "ptr x")
    case None
    then show ?thesis
      using assms(1-3) True by (simp add: SharedPtr_Release_def exec_calls.simps logged_def)
  next
    case (Some a)
    let ?s2 = "s\<lparr>blocks := (blocks s)(c \<mapsto> b\<lparr>strong_count := strong_count b - 1\<rparr>),
                  destroyed := destroyed s @ [a]\<rparr>"
    have "\<forall>m \<in> set (layout s a). \<not> member_alive ?s2 m"
      using assms(4) [OF True] Some
      by (auto simp: stores_no_handle_def member_alive_def split: member.splits)
    then have "exec_calls (map Call_dtor (layout s a) @ [Resume_Release c]) ?s2
               = exec_calls [Resume_Release c] ?s2"
      by (rule exec_calls_skip)
    then show ?thesis
      using assms(1-3) True Some by (simp add: SharedPtr_Release_def exec_calls.simps logged_def)
  qed
qed

lemma SharedPtr_Release_plain:
  assumes "invar s" "shared s h = Some x" "plain_release h s"
  shows "\<exists>s1. SharedPtr_Release h s = Some s1 \<and> shared s1 = shared s \<and> weak s1 = weak s"
proof (cases "counter x")
  case None
  then show ?thesis using SharedPtr_Release_null [OF assms(2)] by simp
next
  case (Some c)
  then obtain b where b: "blocks s c = Some b"
    using assms(1,2) by (fastforce simp: invar_def handle_ok_def)
  have "strong_count b = 1 \<Longrightarrow> stores_no_handle s (ptr x)"
    using assms(2,3) Some b by (simp add: plain_release_def)
  from SharedPtr_Release_block [OF assms(2) Some b this]
  show ?thesis by (auto simp: delete_Counter_def logged_def split: option.splits)
qed

lemma SharedPtr_Release_frame:
  assumes "SharedPtr_Release h s = Some s1"
  shows "(\<forall>k x. shared s1 k = Some x \<longrightarrow> shared s k = Some x) \<and>
         (\<forall>w x. weak s1 w = Some x \<longrightarrow> weak s w = Some x) \<and>
         layout s1 = layout s \<and> next_block s1 = next_block s \<and> next_obj s1 = next_obj s"
  using assms exec_calls_frame
  by (auto simp: SharedPtr_Release_def split: Option.bind_splits)

lemma invar_SharedPtr_Release:
  assumes "invar s" "SharedPtr_Release h s = Some s1" "shared s1 h \<noteq> None"
  shows "invar (s1\<lparr>shared := (shared s1)(h := None)\<rparr>)" and "shared s1 h = shared s h"
proof -
  from assms(2) obtain x where x: "shared s h = Some x" "exec_calls [Call_Release x] s = Some s1"
    by (auto simp: SharedPtr_Release_def split: Option.bind_splits)
  show same: "shared s1 h = shared s h"
    using assms(3) exec_calls_frame [OF x(2)] by auto
  have ci: "calls_invar {h} [Call_Release x] s"
  proof (rule ci_I)
    fix c b assume b: "blocks s c = Some b"
    have "unat (strong_count b) = card (refs (shared s) c)"
      using assms(1) b by (auto simp: invar_def counts_ok_def)
    moreover have "card (refs (shared s) c) = card (refs (shared s) c - {h}) + (if counter x = Some c then 1 else 0)"
    proof (cases "counter x = Some c")
      case True
      then have "h \<in> refs (shared s) c" using x(1) by (simp add: refs_mem)
      then show ?thesis using True card_Suc_remove [of h "refs (shared s) c"] by simp
    next
      case False
      then have "h \<notin> refs (shared s) c" using x(1) by (simp add: refs_mem)
      then show ?thesis using False by simp
    qed
    ultimately show "unat (strong_count b) = card (refs (shared s) c - {h}) + pending_strong [Call_Release x] c"
      by simp
    show "c < next_block s" "unat (weak_count b) = card (refs (weak s) c) + pending_weak [Call_Release x] c"
      using assms(1) b by (auto simp: invar_def counts_ok_def)
  next
    fix y c assume "Call_Release y \<in> set [Call_Release x] \<or> Call_Weak_Release y \<in> set [Call_Release x]"
      "counter y = Some c"
    then show "blocks s c \<noteq> None" using assms(1) x(1) by (auto simp: invar_def handle_ok_def)
  qed (use assms(1) in \<open>auto simp: invar_def handle_ok_def\<close>)
  have "{h} \<subseteq> dom (shared s1)" using assms(3) by auto
  from calls_invar_exec [OF x(2) ci this] have ci1: "calls_invar {h} [] s1" .
  have r: "refs ((shared s1)(h := None)) c = refs (shared s1) c - {h}" for c
    by (simp add: refs_del)
  show "invar (s1\<lparr>shared := (shared s1)(h := None)\<rparr>)"
    unfolding invar_def counts_ok_def
  proof (intro conjI allI impI)
    fix k y assume "shared (s1\<lparr>shared := (shared s1)(h := None)\<rparr>) k = Some y"
    then have "k \<noteq> h" "shared s1 k = Some y" by (auto split: if_splits)
    then show "handle_ok (blocks (s1\<lparr>shared := (shared s1)(h := None)\<rparr>)) y"
      using ci_fields [OF ci1, of k y] ci_alloc [OF ci1, of k y] by (auto simp: handle_ok_def)
  next
    fix w y assume "weak (s1\<lparr>shared := (shared s1)(h := None)\<rparr>) w = Some y"
    then show "handle_ok (blocks (s1\<lparr>shared := (shared s1)(h := None)\<rparr>)) y"
      using ci_weak [OF ci1, of w y] by simp
  next
    fix c b assume "blocks (s1\<lparr>shared := (shared s1)(h := None)\<rparr>) c = Some b"
    then have b: "blocks s1 c = Some b" by simp
    show "c < next_block (s1\<lparr>shared := (shared s1)(h := None)\<rparr>)"
      "unat (strong_count b) = card (refs (shared (s1\<lparr>shared := (shared s1)(h := None)\<rparr>)) c)"
      "unat (weak_count b) = card (refs (weak (s1\<lparr>shared := (shared s1)(h := None)\<rparr>)) c)"
      using ci_counts [OF ci1 b] r [of c] by simp_all
  qed (use ci_null [OF ci1] in simp_all)
qed

lemma invar_exec_dtor:
  assumes "invar s" "exec_calls [Call_dtor m] s = Some s'"
  shows "invar s'"
proof -
  have "calls_invar {} [Call_dtor m] s"
    using assms(1) by (simp add: invar_calls_invar calls_invar_def)
  from calls_invar_exec [OF assms(2) this] show ?thesis by (simp add: invar_calls_invar)
qed

lemma WeakPtr_Release_null:
  "weak s w = Some x \<Longrightarrow> counter x = None \<Longrightarrow> WeakPtr_Release w s = Some s"
  by (simp add: WeakPtr_Release_def exec_calls.simps)

lemma WeakPtr_Release_block:
  assumes "weak s w = Some x" "counter x = Some c" "blocks s c = Some b"
  shows "WeakPtr_Release w s = Some
     (if weak_count b = 1 \<and> strong_count b = 0
      then delete_Counter c (s\<lparr>blocks := (blocks s)(c \<mapsto> b\<lparr>weak_count := weak_count b - 1\<rparr>)\<rparr>)
      else s\<lparr>blocks := (blocks s)(c \<mapsto> b\<lparr>weak_count := weak_count b - 1\<rparr>)\<rparr>)"
  using assms by (simp add: WeakPtr_Release_def exec_calls.simps word_dec_0)

lemma WeakPtr_Release_frame:
  assumes "WeakPtr_Release w s = Some s1"
  shows "shared s1 = shared s \<and> weak s1 = weak s \<and> next_block s1 = next_block s \<and> next_obj s1 = next_obj s
         \<and> destroyed s1 = destroyed s \<and> layout s1 = layout s"
  using assms
  by (auto simp: WeakPtr_Release_def exec_calls.simps delete_Counter_def
           split: option.splits if_splits Option.bind_splits)

lemma invar_WeakPtr_Release:
  assumes "invar s" "weak s w = Some x"
  shows "\<exists>s1. WeakPtr_Release w s = Some s1 \<and> invar (s1\<lparr>weak := (weak s1)(w := None)\<rparr>)"
proof (cases "counter x")
  case None
  have "refs (weak s) c - {w} = refs (weak s) c" for c
    using assms(2) None by (auto simp: refs_def)
  then have "invar (s\<lparr>weak := (weak s)(w := None)\<rparr>)"
    using assms(1) by (auto simp: invar_def counts_ok_def refs_del)
  then show ?thesis using WeakPtr_Release_null [OF assms(2) None] by simp
next
  case (Some c)
  from assms Some obtain b where b: "blocks s c = Some b"
    by (fastforce simp: invar_def handle_ok_def)
  have win: "w \<in> refs (weak s) c" using assms(2) Some by (simp add: refs_mem)
  have cs: "unat (strong_count b) = card (refs (shared s) c)"
    and cw: "unat (weak_count b) = card (refs (weak s) c)"
    using assms(1) b by (auto simp: invar_def counts_ok_def)
  have dec: "unat (weak_count b - 1) = card (refs (weak s) c - {w})"
    and zero: "weak_count b - 1 = 0 \<longleftrightarrow> refs (weak s) c = {w}"
    using unat_dec [OF cw win] by auto
  have other: "refs (weak s) c' - {w} = refs (weak s) c'" if "c' \<noteq> c" for c'
    using assms(2) Some that by (auto simp: refs_def)
  have s0: "strong_count b = 0 \<longleftrightarrow> refs (shared s) c = {}"
    using cs by (simp add: unat_eq_0 [symmetric])
  show ?thesis
  proof (cases "weak_count b = 1 \<and> strong_count b = 0")
    case True
    then have e: "refs (weak s) c = {w}" "refs (shared s) c = {}"
      using zero s0 by (auto simp: word_dec_0)
    have "invar (s\<lparr>blocks := (blocks s)(c := None), weak := (weak s)(w := None)\<rparr>)"
      unfolding invar_def counts_ok_def
    proof (intro conjI allI impI)
      fix h' x' assume a: "weak (s\<lparr>blocks := (blocks s)(c := None), weak := (weak s)(w := None)\<rparr>) h' = Some x'"
      then have "h' \<noteq> w" "weak s h' = Some x'" by (auto split: if_splits)
      then have "counter x' \<noteq> Some c" using e(1) by (auto simp: refs_def)
      then show "handle_ok (blocks (s\<lparr>blocks := (blocks s)(c := None), weak := (weak s)(w := None)\<rparr>)) x'"
        using assms(1) \<open>weak s h' = Some x'\<close> by (auto simp: invar_def handle_ok_def)
    next
      fix h' x' assume a: "shared (s\<lparr>blocks := (blocks s)(c := None), weak := (weak s)(w := None)\<rparr>) h' = Some x'"
      then have "counter x' \<noteq> Some c" using e(2) by (auto simp: refs_def)
      then show "handle_ok (blocks (s\<lparr>blocks := (blocks s)(c := None), weak := (weak s)(w := None)\<rparr>)) x'"
        using assms(1) a by (auto simp: invar_def handle_ok_def)
    qed (use assms(1) other in \<open>auto simp: invar_def counts_ok_def refs_del split: if_splits\<close>)
    then show ?thesis
      using WeakPtr_Release_block [OF assms(2) Some b] True
      by (auto simp: delete_Counter_def elim!: invar_eqI)
  next
    case False
    have "invar (s\<lparr>blocks := (blocks s)(c \<mapsto> b\<lparr>weak_count := weak_count b - 1\<rparr>), weak := (weak s)(w := None)\<rparr>)"
      using assms(1) other dec cs b
      by (auto simp: invar_def counts_ok_def refs_del handle_ok_def split: if_splits)
    then show ?thesis
      using WeakPtr_Release_block [OF assms(2) Some b] False
      by (auto simp: delete_Counter_def elim!: invar_eqI)
  qed
qed

subsection \<open>Every operation preserves the invariant\<close>

lemma invar_acquire_strong:
  assumes "invar s" "fresh_shared h s" "handle_ok (blocks s) x"
  shows "\<exists>s'. (if counter x \<noteq> None then inc_strong (counter x) (set_shared h x s)
               else Some (set_shared h x s)) = Some s' \<and> invar s'"
proof (cases "counter x")
  case None
  have "refs (shared s) c - {h} = refs (shared s) c" for c
    using assms(2) by (auto simp: refs_def fresh_shared_def)
  then have "invar (set_shared h x s)"
    using assms None
    by (auto simp: invar_def counts_ok_def refs_upd set_shared_def fresh_shared_def)
  then show ?thesis using None by simp
next
  case (Some c)
  from assms(3) Some obtain b where b: "blocks s c = Some b"
    by (auto simp: handle_ok_def)
  have hn: "h \<notin> refs (shared s) c'" for c'
    using assms(2) by (simp add: refs_notin fresh_shared_def)
  have cs: "unat (strong_count b) = card (refs (shared s) c)"
    using assms(1) b by (auto simp: invar_def counts_ok_def)
  have "Suc (card (refs (shared s) c)) < 2 ^ 64"
    using assms(1,2) hn by (intro card_refs_bound) (auto simp: invar_def fresh_shared_def)
  then have inc: "unat (strong_count b + 1) = Suc (card (refs (shared s) c))"
    using cs by (intro unat_inc)
  have "invar (s\<lparr>shared := (shared s)(h \<mapsto> x), blocks := (blocks s)(c \<mapsto> b\<lparr>strong_count := strong_count b + 1\<rparr>)\<rparr>)"
    using assms Some b hn inc
    by (auto simp: invar_def counts_ok_def refs_upd handle_ok_def fresh_shared_def split: if_splits)
  then show ?thesis
    using Some b by (simp add: inc_strong_def set_shared_def)
qed

lemma invar_acquire_weak:
  assumes "invar s" "fresh_weak w s" "handle_ok (blocks s) x"
  shows "\<exists>s'. (if counter x \<noteq> None then inc_weak (counter x) (set_weak w x s)
               else Some (set_weak w x s)) = Some s' \<and> invar s'"
proof (cases "counter x")
  case None
  have "refs (weak s) c - {w} = refs (weak s) c" for c
    using assms(2) by (auto simp: refs_def fresh_weak_def)
  then have "invar (set_weak w x s)"
    using assms None
    by (auto simp: invar_def counts_ok_def refs_upd set_weak_def fresh_weak_def)
  then show ?thesis using None by simp
next
  case (Some c)
  from assms(3) Some obtain b where b: "blocks s c = Some b"
    by (auto simp: handle_ok_def)
  have hn: "w \<notin> refs (weak s) c'" for c'
    using assms(2) by (simp add: refs_notin fresh_weak_def)
  have cw: "unat (weak_count b) = card (refs (weak s) c)"
    using assms(1) b by (auto simp: invar_def counts_ok_def)
  have "Suc (card (refs (weak s) c)) < 2 ^ 64"
    using assms(1,2) hn by (intro card_refs_bound) (auto simp: invar_def fresh_weak_def)
  then have inc: "unat (weak_count b + 1) = Suc (card (refs (weak s) c))"
    using cw by (intro unat_inc)
  have "invar (s\<lparr>weak := (weak s)(w \<mapsto> x), blocks := (blocks s)(c \<mapsto> b\<lparr>weak_count := weak_count b + 1\<rparr>)\<rparr>)"
    using assms Some b hn inc
    by (auto simp: invar_def counts_ok_def refs_upd handle_ok_def fresh_weak_def split: if_splits)
  then show ?thesis
    using Some b by (simp add: inc_weak_def set_weak_def)
qed

lemma invar_adopt:
  assumes "invar s" "fresh_shared h s"
  shows "invar (set_shared h \<lparr>ptr = Some a, counter = Some (next_block s)\<rparr> (snd (new_Counter s)))"
proof -
  have nb: "blocks s (next_block s) = None"
    using assms(1) by (cases "blocks s (next_block s)") (auto simp: invar_def counts_ok_def)
  have e1: "refs (shared s) (next_block s) = {}"
    using assms(1) nb unfolding refs_def invar_def handle_ok_def by fastforce
  have e2: "refs (weak s) (next_block s) = {}"
    using assms(1) nb unfolding refs_def invar_def handle_ok_def by fastforce
  have hn: "h \<notin> refs (shared s) c'" for c'
    using assms(2) by (simp add: refs_notin fresh_shared_def)
  show ?thesis
    using assms e1 e2 hn
    by (auto simp: invar_def counts_ok_def refs_upd handle_ok_def fresh_shared_def
                   new_Counter_def set_shared_def Counter_new_def less_Suc_eq
             split: if_splits)
qed

lemma card_mem_pred:
  assumes "a \<in> S" "finite S"
  shows "Suc (card S - Suc 0) = card S"
proof -
  have "card S \<noteq> 0" using assms by auto
  then show ?thesis by simp
qed

lemma invar_transfer_strong:
  assumes "invar s" "fresh_shared h s" "shared s other = Some x"
  shows "invar (set_shared other \<lparr>ptr = None, counter = None\<rparr> (set_shared h x s))"
proof -
  have hn: "h \<notin> refs (shared s) c'" for c'
    using assms(2) by (simp add: refs_notin fresh_shared_def)
  have ne: "h \<noteq> other" using assms(2,3) by (auto simp: fresh_shared_def)
  have r: "card (refs ((shared s)(h \<mapsto> x, other \<mapsto> \<lparr>ptr = None, counter = None\<rparr>)) c) = card (refs (shared s) c)" for c
  proof (cases "counter x = Some c")
    case True
    then have "other \<in> refs (shared s) c" using assms(3) by (simp add: refs_mem)
    then show ?thesis using True hn ne by (simp add: refs_upd card_mem_pred insert_Diff_if)
  next
    case False
    then have "other \<notin> refs (shared s) c" using assms(3) by (simp add: refs_mem)
    then show ?thesis using False hn by (simp add: refs_upd)
  qed
  show ?thesis
    using assms ne unfolding invar_def counts_ok_def set_shared_def
    by (auto simp: r handle_ok_def fresh_shared_def split: if_splits)
qed

lemma invar_transfer_weak:
  assumes "invar s" "fresh_weak w s" "weak s other = Some x"
  shows "invar (set_weak other \<lparr>ptr = None, counter = None\<rparr> (set_weak w x s))"
proof -
  have hn: "w \<notin> refs (weak s) c'" for c'
    using assms(2) by (simp add: refs_notin fresh_weak_def)
  have ne: "w \<noteq> other" using assms(2,3) by (auto simp: fresh_weak_def)
  have r: "card (refs ((weak s)(w \<mapsto> x, other \<mapsto> \<lparr>ptr = None, counter = None\<rparr>)) c) = card (refs (weak s) c)" for c
  proof (cases "counter x = Some c")
    case True
    then have "other \<in> refs (weak s) c" using assms(3) by (simp add: refs_mem)
    then show ?thesis using True hn ne by (simp add: refs_upd card_mem_pred insert_Diff_if)
  next
    case False
    then have "other \<notin> refs (weak s) c" using assms(3) by (simp add: refs_mem)
    then show ?thesis using False hn by (simp add: refs_upd)
  qed
  show ?thesis
    using assms ne unfolding invar_def counts_ok_def set_weak_def
    by (auto simp: r handle_ok_def fresh_weak_def split: if_splits)
qed

lemma card_refs_swap:
  assumes "m h = Some x" "m other = Some y"
  shows "card (refs (m(h \<mapsto> y, other \<mapsto> x)) c) = card (refs m c)"
proof (cases "h = other")
  case True
  then have "m(h \<mapsto> y, other \<mapsto> x) = m" using assms by (auto simp: fun_eq_iff)
  then show ?thesis by simp
next
  case False
  have hm: "h \<in> refs m c \<longleftrightarrow> counter x = Some c" and om: "other \<in> refs m c \<longleftrightarrow> counter y = Some c"
    using assms by (simp_all add: refs_mem)
  show ?thesis
    using False hm om
    by (cases "counter x = Some c"; cases "counter y = Some c")
       (simp_all add: refs_upd insert_absorb insert_Diff_if card_mem_pred)
qed

lemma handle_ok_null [simp]: "handle_ok bs \<lparr>ptr = None, counter = None\<rparr>"
  by (simp add: handle_ok_def)

lemma invar_shared_ok: "invar s \<Longrightarrow> shared s h = Some x \<Longrightarrow> handle_ok (blocks s) x"
  by (auto simp: invar_def)

lemma invar_weak_ok: "invar s \<Longrightarrow> weak s w = Some x \<Longrightarrow> handle_ok (blocks s) x"
  by (auto simp: invar_def)

lemma invar_add_null_strong:
  "invar s \<Longrightarrow> fresh_shared h s \<Longrightarrow> invar (set_shared h \<lparr>ptr = None, counter = None\<rparr> s)"
  using invar_acquire_strong [of s h "\<lparr>ptr = None, counter = None\<rparr>"] by simp

lemma invar_add_null_weak:
  "invar s \<Longrightarrow> fresh_weak w s \<Longrightarrow> invar (set_weak w \<lparr>ptr = None, counter = None\<rparr> s)"
  using invar_acquire_weak [of s w "\<lparr>ptr = None, counter = None\<rparr>"] by simp

lemma inc_strong_Some: "inc_strong p s = Some s' \<Longrightarrow> p \<noteq> None"
  by (cases p) (auto simp: inc_strong_def)

lemma inc_weak_Some: "inc_weak p s = Some s' \<Longrightarrow> p \<noteq> None"
  by (cases p) (auto simp: inc_weak_def)

lemma SharedPtr_released:
  assumes "invar s" "SharedPtr_Release h s = Some s1" "shared s1 h \<noteq> None"
  shows "invar (s1\<lparr>shared := (shared s1)(h := None)\<rparr>)"
    and "fresh_shared h (s1\<lparr>shared := (shared s1)(h := None)\<rparr>)"
proof -
  show "invar (s1\<lparr>shared := (shared s1)(h := None)\<rparr>)"
    by (rule invar_SharedPtr_Release(1) [OF assms])
  have "shared s h \<noteq> None" using invar_SharedPtr_Release(2) [OF assms] assms(3) by simp
  then have "h \<noteq> 0" using assms(1) by (auto simp: invar_def)
  then show "fresh_shared h (s1\<lparr>shared := (shared s1)(h := None)\<rparr>)"
    by (simp add: fresh_shared_def)
qed

lemma WeakPtr_released:
  assumes "invar s" "WeakPtr_Release w s = Some s1"
  shows "invar (s1\<lparr>weak := (weak s1)(w := None)\<rparr>)"
    and "fresh_weak w (s1\<lparr>weak := (weak s1)(w := None)\<rparr>)"
proof -
  from assms(2) obtain x where x: "weak s w = Some x"
    by (auto simp: WeakPtr_Release_def split: Option.bind_splits)
  show "invar (s1\<lparr>weak := (weak s1)(w := None)\<rparr>)"
    using invar_WeakPtr_Release [OF assms(1) x] assms(2) by simp
  have "w \<noteq> 0" using assms(1) x by (auto simp: invar_def)
  then show "fresh_weak w (s1\<lparr>weak := (weak s1)(w := None)\<rparr>)"
    by (simp add: fresh_weak_def)
qed

lemma set_shared_dropped:
  "set_shared h x (s\<lparr>shared := (shared s)(h := None)\<rparr>) = set_shared h x s"
  by (simp add: set_shared_def)

lemma set_weak_dropped:
  "set_weak w x (s\<lparr>weak := (weak s)(w := None)\<rparr>) = set_weak w x s"
  by (simp add: set_weak_def)

lemma invar_SharedPtr_default: "invar s \<Longrightarrow> SharedPtr_default h s = Some s' \<Longrightarrow> invar s'"
  by (auto simp: SharedPtr_default_def invar_add_null_strong split: if_splits)

lemma invar_SharedPtr_raw: "invar s \<Longrightarrow> SharedPtr_raw h p s = Some s' \<Longrightarrow> invar s'"
  using invar_adopt [of s h]
  by (auto simp: SharedPtr_raw_def invar_add_null_strong new_Counter_def split: if_splits option.splits)

lemma invar_SharedPtr_copy:
  assumes "invar s" "SharedPtr_copy h other s = Some s'" shows "invar s'"
proof -
  from assms(2) obtain x where x: "fresh_shared h s" "shared s other = Some x"
    by (auto simp: SharedPtr_copy_def split: if_splits Option.bind_splits)
  show ?thesis
    using invar_acquire_strong [OF assms(1) x(1) invar_shared_ok [OF assms(1) x(2)]] assms(2) x
    by (auto simp: SharedPtr_copy_def)
qed

lemma invar_SharedPtr_move: "invar s \<Longrightarrow> SharedPtr_move h other s = Some s' \<Longrightarrow> invar s'"
  by (auto simp: SharedPtr_move_def invar_transfer_strong split: if_splits Option.bind_splits)

lemma invar_SharedPtr_from_weak:
  assumes "invar s" "SharedPtr_from_weak h w s = Returns s' \<or> SharedPtr_from_weak h w s = Throws e s'"
  shows "invar s'"
proof (cases "SharedPtr_from_weak h w s = Throws e s'")
  case True
  then have "s' = s"
    by (auto simp: SharedPtr_from_weak_def lift_def split: if_splits option.splits bool.splits)
  then show ?thesis using assms(1) by simp
next
  case False
  then have r: "SharedPtr_from_weak h w s = Returns s'" using assms(2) by simp
  then obtain x where x: "fresh_shared h s" "weak s w = Some x"
     "inc_strong (counter x) (set_shared h x s) = Some s'"
    by (auto simp: SharedPtr_from_weak_def lift_def split: if_splits option.splits bool.splits Option.bind_splits)
  show ?thesis
    using invar_acquire_strong [OF assms(1) x(1) invar_weak_ok [OF assms(1) x(2)]] x(3) inc_strong_Some [OF x(3)]
    by auto
qed

lemma invar_SharedPtr_assign_weak:
  assumes "invar s" "SharedPtr_assign_weak h w s = Returns s' \<or> SharedPtr_assign_weak h w s = Throws e s'"
  shows "invar s'"
proof (cases "SharedPtr_assign_weak h w s = Throws e s'")
  case True
  then have "s' = s"
    by (auto simp: SharedPtr_assign_weak_def lift_def split: if_splits option.splits bool.splits)
  then show ?thesis using assms(1) by simp
next
  case False
  then have r: "SharedPtr_assign_weak h w s = Returns s'" using assms(2) by simp
  then obtain s1 x where x: "SharedPtr_Release h s = Some s1" "weak s1 w = Some x"
     "inc_strong (counter x) (set_shared h x s1) = Some s'"
    and alive: "shared s1 h \<noteq> None"
    by (auto simp: SharedPtr_assign_weak_def lift_def split: if_splits option.splits bool.splits Option.bind_splits)
  define d where "d = s1\<lparr>shared := (shared s1)(h := None)\<rparr>"
  have d: "invar d" "fresh_shared h d"
    using SharedPtr_released [OF assms(1) x(1) alive] by (simp_all add: d_def)
  have "weak d w = Some x" using x(2) by (simp add: d_def)
  then have "handle_ok (blocks d) x" using d(1) by (rule invar_weak_ok [rotated])
  moreover have "inc_strong (counter x) (set_shared h x d) = Some s'"
    using x(3) by (simp add: d_def set_shared_dropped)
  ultimately show ?thesis
    using invar_acquire_strong [OF d(1,2), of x] inc_strong_Some [OF x(3)]
    by auto
qed

lemma invar_SharedPtr_assign_copy:
  assumes "invar s" "SharedPtr_assign_copy h other s = Some s'"
  shows "invar s'"
proof (cases "h = other")
  case True
  then show ?thesis using assms
    by (auto simp: SharedPtr_assign_copy_def split: Option.bind_splits)
next
  case False
  then obtain s1 x where x: "SharedPtr_Release h s = Some s1" "shared s1 other = Some x"
     "(if counter x \<noteq> None then inc_strong (counter x) (set_shared h x s1) else Some (set_shared h x s1)) = Some s'"
    and alive: "shared s1 h \<noteq> None"
    using assms(2)
    by (auto simp: SharedPtr_assign_copy_def Let_def split: Option.bind_splits)
  define d where "d = s1\<lparr>shared := (shared s1)(h := None)\<rparr>"
  have d: "invar d" "fresh_shared h d"
    using SharedPtr_released [OF assms(1) x(1) alive] by (simp_all add: d_def)
  have "shared d other = Some x" using x(2) False by (simp add: d_def)
  then have "handle_ok (blocks d) x" using d(1) by (rule invar_shared_ok [rotated])
  moreover have "(if counter x \<noteq> None then inc_strong (counter x) (set_shared h x d)
                  else Some (set_shared h x d)) = Some s'"
    using x(3) by (auto simp: d_def set_shared_dropped split: if_splits)
  ultimately show ?thesis
    using invar_acquire_strong [OF d(1,2), of x]
    by auto
qed

lemma invar_SharedPtr_assign_move:
  assumes "invar s" "SharedPtr_assign_move h other s = Some s'"
  shows "invar s'"
proof (cases "h = other")
  case True
  then show ?thesis using assms
    by (auto simp: SharedPtr_assign_move_def split: Option.bind_splits)
next
  case False
  then obtain s1 x where x: "SharedPtr_Release h s = Some s1" "shared s1 other = Some x"
     "s' = set_shared other \<lparr>ptr = None, counter = None\<rparr> (set_shared h x s1)"
    and alive: "shared s1 h \<noteq> None"
    using assms(2)
    by (auto simp: SharedPtr_assign_move_def Let_def split: Option.bind_splits)
  define d where "d = s1\<lparr>shared := (shared s1)(h := None)\<rparr>"
  have d: "invar d" "fresh_shared h d"
    using SharedPtr_released [OF assms(1) x(1) alive] by (simp_all add: d_def)
  have "shared d other = Some x" using x(2) False by (simp add: d_def)
  moreover have "s' = set_shared other \<lparr>ptr = None, counter = None\<rparr> (set_shared h x d)"
    using x(3) by (simp add: d_def set_shared_dropped)
  ultimately show ?thesis
    using invar_transfer_strong [OF d(1,2)] by simp
qed

lemma invar_SharedPtr_dtor:
  assumes "invar s" "SharedPtr_dtor h s = Some s'"
  shows "invar s'"
proof -
  from assms(2) have "exec_calls [Call_dtor (Strong h)] s = Some s'"
    by (auto simp: SharedPtr_dtor_def split: Option.bind_splits)
  then show ?thesis by (rule invar_exec_dtor [OF assms(1)])
qed

lemma invar_SharedPtr_Reset:
  assumes "invar s" "SharedPtr_Reset h p s = Some s'"
  shows "invar s'"
proof -
  from assms(2) obtain t where live: "shared s h = Some t"
    by (auto simp: SharedPtr_Reset_def split: Option.bind_splits)
  show ?thesis
  proof (cases "p = ptr t")
    case True
    then show ?thesis using assms live by (simp add: SharedPtr_Reset_def)
  next
    case False
    then obtain s1 where s1: "SharedPtr_Release h s = Some s1"
      "s' = (case p of None \<Rightarrow> set_shared h \<lparr>ptr = None, counter = None\<rparr> s1
             | Some a \<Rightarrow> set_shared h \<lparr>ptr = Some a, counter = Some (next_block s1)\<rparr> (snd (new_Counter s1)))"
      and alive: "shared s1 h \<noteq> None"
      using assms(2) live
      by (cases p) (auto simp: SharedPtr_Reset_def new_Counter_def split: Option.bind_splits)
    define d where "d = s1\<lparr>shared := (shared s1)(h := None)\<rparr>"
    have d: "invar d" "fresh_shared h d"
      using SharedPtr_released [OF assms(1) s1(1) alive] by (simp_all add: d_def)
    show ?thesis
    proof (cases p)
      case None
      have "set_shared h \<lparr>ptr = None, counter = None\<rparr> d = s'"
        using s1(2) None by (simp add: d_def set_shared_dropped)
      then show ?thesis using invar_add_null_strong [OF d] by simp
    next
      case (Some a)
      have "s' = set_shared h \<lparr>ptr = Some a, counter = Some (next_block d)\<rparr> (snd (new_Counter d))"
        using s1(2) Some by (simp add: d_def set_shared_def new_Counter_def)
      then show ?thesis using invar_adopt [OF d(1,2)] by simp
    qed
  qed
qed

lemma invar_SharedPtr_Swap:
  assumes "invar s" "SharedPtr_Swap h other s = Some s'"
  shows "invar s'"
proof -
  from assms(2) obtain x y where xy: "shared s h = Some x" "shared s other = Some y"
    "s' = s\<lparr>shared := (shared s)(h \<mapsto> y, other \<mapsto> x)\<rparr>"
    by (auto simp: SharedPtr_Swap_def set_shared_def split: Option.bind_splits)
  have "h \<noteq> 0" "other \<noteq> 0" using assms(1) xy by (auto simp: invar_def)
  then show ?thesis
    using assms(1) xy card_refs_swap [OF xy(1,2)]
    unfolding invar_def counts_ok_def
    by (auto split: if_splits)
qed

lemma invar_WeakPtr_default: "invar s \<Longrightarrow> WeakPtr_default w s = Some s' \<Longrightarrow> invar s'"
  by (auto simp: WeakPtr_default_def invar_add_null_weak split: if_splits)

lemma invar_WeakPtr_copy:
  assumes "invar s" "WeakPtr_copy w other s = Some s'" shows "invar s'"
proof -
  from assms(2) obtain x where x: "fresh_weak w s" "weak s other = Some x"
    by (auto simp: WeakPtr_copy_def split: if_splits Option.bind_splits)
  show ?thesis
    using invar_acquire_weak [OF assms(1) x(1) invar_weak_ok [OF assms(1) x(2)]] assms(2) x
    by (auto simp: WeakPtr_copy_def)
qed

lemma invar_WeakPtr_move: "invar s \<Longrightarrow> WeakPtr_move w other s = Some s' \<Longrightarrow> invar s'"
  by (auto simp: WeakPtr_move_def invar_transfer_weak split: if_splits Option.bind_splits)

lemma invar_WeakPtr_from_shared:
  assumes "invar s" "WeakPtr_from_shared w sp s = Some s'" shows "invar s'"
proof -
  from assms(2) obtain x where x: "fresh_weak w s" "shared s sp = Some x"
    by (auto simp: WeakPtr_from_shared_def split: if_splits Option.bind_splits)
  show ?thesis
    using invar_acquire_weak [OF assms(1) x(1) invar_shared_ok [OF assms(1) x(2)]] assms(2) x
    by (auto simp: WeakPtr_from_shared_def)
qed

lemma invar_WeakPtr_assign_shared:
  assumes "invar s" "WeakPtr_assign_shared w sp s = Some s'"
  shows "invar s'"
proof -
  from assms(2) obtain s1 x where x: "WeakPtr_Release w s = Some s1" "shared s1 sp = Some x"
     "(if counter x \<noteq> None then inc_weak (counter x) (set_weak w x s1) else Some (set_weak w x s1)) = Some s'"
    by (auto simp: WeakPtr_assign_shared_def Let_def split: Option.bind_splits)
  define d where "d = s1\<lparr>weak := (weak s1)(w := None)\<rparr>"
  have d: "invar d" "fresh_weak w d"
    using WeakPtr_released [OF assms(1) x(1)] by (simp_all add: d_def)
  have "shared d sp = Some x" using x(2) by (simp add: d_def)
  then have "handle_ok (blocks d) x" using d(1) by (rule invar_shared_ok [rotated])
  moreover have "(if counter x \<noteq> None then inc_weak (counter x) (set_weak w x d)
                  else Some (set_weak w x d)) = Some s'"
    using x(3) by (auto simp: d_def set_weak_dropped split: if_splits)
  ultimately show ?thesis
    using invar_acquire_weak [OF d(1,2), of x]
    by auto
qed

lemma invar_WeakPtr_assign_copy:
  assumes "invar s" "WeakPtr_assign_copy w other s = Some s'"
  shows "invar s'"
proof (cases "w = other")
  case True
  then show ?thesis using assms
    by (auto simp: WeakPtr_assign_copy_def split: Option.bind_splits)
next
  case False
  then obtain s1 x where x: "WeakPtr_Release w s = Some s1" "weak s1 other = Some x"
     "(if counter x \<noteq> None then inc_weak (counter x) (set_weak w x s1) else Some (set_weak w x s1)) = Some s'"
    using assms(2)
    by (auto simp: WeakPtr_assign_copy_def Let_def split: Option.bind_splits)
  define d where "d = s1\<lparr>weak := (weak s1)(w := None)\<rparr>"
  have d: "invar d" "fresh_weak w d"
    using WeakPtr_released [OF assms(1) x(1)] by (simp_all add: d_def)
  have "weak d other = Some x" using x(2) False by (simp add: d_def)
  then have "handle_ok (blocks d) x" using d(1) by (rule invar_weak_ok [rotated])
  moreover have "(if counter x \<noteq> None then inc_weak (counter x) (set_weak w x d)
                  else Some (set_weak w x d)) = Some s'"
    using x(3) by (auto simp: d_def set_weak_dropped split: if_splits)
  ultimately show ?thesis
    using invar_acquire_weak [OF d(1,2), of x]
    by auto
qed

lemma invar_WeakPtr_assign_move:
  assumes "invar s" "WeakPtr_assign_move w other s = Some s'"
  shows "invar s'"
proof (cases "w = other")
  case True
  then show ?thesis using assms
    by (auto simp: WeakPtr_assign_move_def split: Option.bind_splits)
next
  case False
  then obtain s1 x where x: "WeakPtr_Release w s = Some s1" "weak s1 other = Some x"
     "s' = set_weak other \<lparr>ptr = None, counter = None\<rparr> (set_weak w x s1)"
    using assms(2)
    by (auto simp: WeakPtr_assign_move_def Let_def split: Option.bind_splits)
  define d where "d = s1\<lparr>weak := (weak s1)(w := None)\<rparr>"
  have d: "invar d" "fresh_weak w d"
    using WeakPtr_released [OF assms(1) x(1)] by (simp_all add: d_def)
  have "weak d other = Some x" using x(2) False by (simp add: d_def)
  moreover have "s' = set_weak other \<lparr>ptr = None, counter = None\<rparr> (set_weak w x d)"
    using x(3) by (simp add: d_def set_weak_dropped)
  ultimately show ?thesis
    using invar_transfer_weak [OF d(1,2)] by simp
qed

lemma invar_WeakPtr_dtor:
  assumes "invar s" "WeakPtr_dtor w s = Some s'"
  shows "invar s'"
proof -
  from assms(2) have "exec_calls [Call_dtor (Weak w)] s = Some s'"
    by (auto simp: WeakPtr_dtor_def split: Option.bind_splits)
  then show ?thesis by (rule invar_exec_dtor [OF assms(1)])
qed

lemma invar_WeakPtr_Reset:
  assumes "invar s" "WeakPtr_Reset w s = Some s'"
  shows "invar s'"
proof -
  from assms(2) obtain s1 where s1: "WeakPtr_Release w s = Some s1"
      "s' = set_weak w \<lparr>ptr = None, counter = None\<rparr> s1"
    by (auto simp: WeakPtr_Reset_def split: Option.bind_splits)
  define d where "d = s1\<lparr>weak := (weak s1)(w := None)\<rparr>"
  have d: "invar d" "fresh_weak w d"
    using WeakPtr_released [OF assms(1) s1(1)] by (simp_all add: d_def)
  have "set_weak w \<lparr>ptr = None, counter = None\<rparr> d = s'"
    using s1(2) by (simp add: d_def set_weak_dropped)
  then show ?thesis using invar_add_null_weak [OF d] by simp
qed

lemma invar_WeakPtr_Swap:
  assumes "invar s" "WeakPtr_Swap w other s = Some s'"
  shows "invar s'"
proof -
  from assms(2) obtain x y where xy: "weak s w = Some x" "weak s other = Some y"
    "s' = s\<lparr>weak := (weak s)(w \<mapsto> y, other \<mapsto> x)\<rparr>"
    by (auto simp: WeakPtr_Swap_def set_weak_def split: Option.bind_splits)
  have "w \<noteq> 0" "other \<noteq> 0" using assms(1) xy by (auto simp: invar_def)
  then show ?thesis
    using assms(1) xy card_refs_swap [OF xy(1,2)]
    unfolding invar_def counts_ok_def
    by (auto split: if_splits)
qed

lemma invar_WeakPtr_Lock:
  assumes "invar s" "WeakPtr_Lock w h s = Returns s' \<or> WeakPtr_Lock w h s = Throws e s'"
  shows "invar s'"
proof (cases "WeakPtr_Expired w s")
  case None
  then show ?thesis using assms(2) by (simp add: WeakPtr_Lock_def)
next
  case (Some b)
  show ?thesis
  proof (cases b)
    case True
    then show ?thesis
      using assms Some invar_SharedPtr_default [of s h s']
      by (auto simp: WeakPtr_Lock_def lift_def split: option.splits)
  next
    case False
    then show ?thesis
      using assms Some invar_SharedPtr_from_weak [of s h w s' e]
      by (simp add: WeakPtr_Lock_def)
  qed
qed

lemma invar_MakeShared: "invar s \<Longrightarrow> MakeShared h s = Some s' \<Longrightarrow> invar s'"
  using invar_SharedPtr_raw [of "s\<lparr>next_obj := Suc (next_obj s)\<rparr>" h "Some (next_obj s)" s']
  by (simp add: MakeShared_def)

lemma lift_Returns: "lift r = Returns s' \<longleftrightarrow> r = Some s'"
  by (simp add: lift_def split: option.splits)

lemma lift_Throws: "lift r \<noteq> Throws e s'"
  by (simp add: lift_def split: option.splits)

lemma invar_exec:
  assumes "invar s" "exec x s = Returns s' \<or> exec x s = Throws e s'"
  shows "invar s'"
proof (cases x)
  case (SP_from_weak h w)
  then show ?thesis using assms invar_SharedPtr_from_weak [of s h w s' e] by simp
next
  case (SP_assign_weak h w)
  then show ?thesis using assms invar_SharedPtr_assign_weak [of s h w s' e] by simp
next
  case (WP_Lock w h)
  then show ?thesis using assms invar_WeakPtr_Lock [of s w h s' e] by simp
next
  case (SP_default h)
  then show ?thesis using assms invar_SharedPtr_default [of s h s']
    by (simp add: lift_Returns lift_Throws)
next
  case (SP_raw h p)
  then show ?thesis using assms invar_SharedPtr_raw [of s h p s']
    by (simp add: lift_Returns lift_Throws)
next
  case (SP_copy h k)
  then show ?thesis using assms invar_SharedPtr_copy [of s h k s']
    by (simp add: lift_Returns lift_Throws)
next
  case (SP_move h k)
  then show ?thesis using assms invar_SharedPtr_move [of s h k s']
    by (simp add: lift_Returns lift_Throws)
next
  case (SP_assign_copy h k)
  then show ?thesis using assms invar_SharedPtr_assign_copy [of s h k s']
    by (simp add: lift_Returns lift_Throws)
next
  case (SP_assign_move h k)
  then show ?thesis using assms invar_SharedPtr_assign_move [of s h k s']
    by (simp add: lift_Returns lift_Throws)
next
  case (SP_dtor h)
  then show ?thesis using assms invar_SharedPtr_dtor [of s h s']
    by (simp add: lift_Returns lift_Throws)
next
  case (SP_Reset h p)
  then show ?thesis using assms invar_SharedPtr_Reset [of s h p s']
    by (simp add: lift_Returns lift_Throws)
next
  case (SP_Swap h k)
  then show ?thesis using assms invar_SharedPtr_Swap [of s h k s']
    by (simp add: lift_Returns lift_Throws)
next
  case (WP_default w)
  then show ?thesis using assms invar_WeakPtr_default [of s w s']
    by (simp add: lift_Returns lift_Throws)
next
  case (WP_copy w k)
  then show ?thesis using assms invar_WeakPtr_copy [of s w k s']
    by (simp add: lift_Returns lift_Throws)
next
  case (WP_move w k)
  then show ?thesis using assms invar_WeakPtr_move [of s w k s']
    by (simp add: lift_Returns lift_Throws)
next
  case (WP_from_shared w k)
  then show ?thesis using assms invar_WeakPtr_from_shared [of s w k s']
    by (simp add: lift_Returns lift_Throws)
next
  case (WP_assign_shared w k)
  then show ?thesis using assms invar_WeakPtr_assign_shared [of s w k s']
    by (simp add: lift_Returns lift_Throws)
next
  case (WP_assign_copy w k)
  then show ?thesis using assms invar_WeakPtr_assign_copy [of s w k s']
    by (simp add: lift_Returns lift_Throws)
next
  case (WP_assign_move w k)
  then show ?thesis using assms invar_WeakPtr_assign_move [of s w k s']
    by (simp add: lift_Returns lift_Throws)
next
  case (WP_dtor w)
  then show ?thesis using assms invar_WeakPtr_dtor [of s w s']
    by (simp add: lift_Returns lift_Throws)
next
  case (WP_Reset w)
  then show ?thesis using assms invar_WeakPtr_Reset [of s w s']
    by (simp add: lift_Returns lift_Throws)
next
  case (WP_Swap w k)
  then show ?thesis using assms invar_WeakPtr_Swap [of s w k s']
    by (simp add: lift_Returns lift_Throws)
next
  case (Make_Shared h)
  then show ?thesis using assms invar_MakeShared [of s h s']
    by (simp add: lift_Returns lift_Throws)
qed

lemma invar_init: "invar (init L)"
  by (simp add: invar_def counts_ok_def init_def)

lemma invar_run: "invar s \<Longrightarrow> run xs s = Some s' \<Longrightarrow> invar s'"
proof (induction xs arbitrary: s)
  case Nil
  then show ?case by simp
next
  case (Cons x xs)
  show ?case
  proof (cases "exec x s")
    case (Returns t)
    then have "invar t" using invar_exec [OF Cons.prems(1)] by blast
    then show ?thesis using Cons.IH Cons.prems(2) Returns by simp
  next
    case (Throws e t)
    then have "invar t" using invar_exec [OF Cons.prems(1)] by blast
    then show ?thesis using Cons.IH Cons.prems(2) Throws by simp
  next
    case Undefined
    then show ?thesis using Cons.prems(2) by simp
  qed
qed

lemma WeakPtr_Release_blocks_other:
  assumes "WeakPtr_Release w s = Some s1" "weak s w = Some t" "counter t \<noteq> Some c"
  shows "blocks s1 c = blocks s c"
  using assms
  by (auto simp: WeakPtr_Release_def exec_calls.simps delete_Counter_def
           split: option.splits if_splits Option.bind_splits)

lemma invar_fresh_block:
  assumes "invar s" shows "blocks s (next_block s) = None"
  using assms by (cases "blocks s (next_block s)") (auto simp: invar_def counts_ok_def)

lemma no_wrap_strong:
  assumes "invar s" "blocks s c = Some b" "h \<noteq> 0" "h \<notin> refs (shared s) c"
  shows "unat (strong_count b + 1) = Suc (unat (strong_count b))"
proof -
  have cs: "unat (strong_count b) = card (refs (shared s) c)"
    using assms(1,2) by (auto simp: invar_def counts_ok_def)
  have "Suc (card (refs (shared s) c)) < 2 ^ 64"
    using assms by (intro card_refs_bound) (auto simp: invar_def)
  then show ?thesis using cs unat_inc [OF cs] by simp
qed

lemma not_Expired:
  assumes "weak s w = Some x" "WeakPtr_Expired w s = Some False"
  shows "\<exists>c b. counter x = Some c \<and> blocks s c = Some b \<and> strong_count b \<noteq> 0"
  using assms
  by (auto simp: WeakPtr_Expired_def WeakPtr_UseCount_def split: option.splits Option.bind_splits)

lemma invar_Expired:
  assumes "invar s" "weak s w = Some x"
  shows "WeakPtr_Expired w s = Some True \<or> WeakPtr_Expired w s = Some False"
proof (cases "counter x")
  case None
  then show ?thesis using assms(2) by (simp add: WeakPtr_Expired_def WeakPtr_UseCount_def)
next
  case (Some c)
  then obtain b where "blocks s c = Some b"
    using invar_weak_ok [OF assms] by (auto simp: handle_ok_def)
  then show ?thesis using assms(2) Some by (simp add: WeakPtr_Expired_def WeakPtr_UseCount_def)
qed

lemma two_refs:
  assumes "unat (n :: 64 word) = card (refs m c)" "m h = Some t" "m k = Some x" "h \<noteq> k"
    "counter t = Some c" "counter x = Some c"
  shows "2 \<le> unat n" and "n \<noteq> 1" and "unat (n - 1) = unat n - 1"
proof -
  have "{h, k} \<subseteq> refs m c" using assms by (auto simp: refs_def)
  then have "card {h, k} \<le> card (refs m c)" by (intro card_mono) auto
  then show 2: "2 \<le> unat n" using assms(1,4) by simp
  then show "n \<noteq> 1" by auto
  have "n \<noteq> 0" using 2 by auto
  then show "unat (n - 1) = unat n - 1" by (simp add: unat_minus_one)
qed

subsection \<open>Every enabled operation returns or throws\<close>

lemma invar_alloc_shared:
  "invar s \<Longrightarrow> shared s h = Some x \<Longrightarrow> counter x = Some c \<Longrightarrow> \<exists>b. blocks s c = Some b"
  by (fastforce simp: invar_def handle_ok_def)






















subsection \<open>Destruction when no object stores a \<open>WeakPtr\<close>\<close>

lemma resumes_dtors [simp]: "resumes (map Call_dtor ms @ k) = resumes k"
  by (induction ms) simp_all




subsection \<open>No operation changes the layout\<close>














section \<open>Evaluating programs\<close>

lemmas model_defs =
  init_def no_members_def lift_def set_shared_def set_weak_def new_Counter_def Counter_new_def
  delete_Counter_def inc_strong_def inc_weak_def fresh_shared_def fresh_weak_def exec_calls.simps
  SharedPtr_Release_def SharedPtr_default_def SharedPtr_raw_def SharedPtr_copy_def SharedPtr_move_def
  SharedPtr_UseCount_def SharedPtr_Get_def SharedPtr_bool_def WeakPtr_UseCount_def WeakPtr_Expired_def
  SharedPtr_from_weak_def SharedPtr_assign_weak_def SharedPtr_assign_copy_def SharedPtr_assign_move_def
  SharedPtr_dtor_def SharedPtr_Reset_def SharedPtr_Swap_def WeakPtr_Release_def WeakPtr_default_def
  WeakPtr_copy_def WeakPtr_move_def WeakPtr_from_shared_def WeakPtr_assign_shared_def
  WeakPtr_assign_copy_def WeakPtr_assign_move_def WeakPtr_dtor_def WeakPtr_Reset_def WeakPtr_Swap_def
  WeakPtr_Lock_def MakeShared_def

lemma run_two_owners:
  "run [SP_raw 1 (Some 7), SP_copy 2 1, WP_from_shared 1 1] (init no_members) = Some two_owners"
  by (simp add: model_defs two_owners_def)

lemma run_sole_owner:
  "run [SP_raw 1 (Some 7), WP_from_shared 1 1] (init no_members) = Some sole_owner"
  by (simp add: model_defs sole_owner_def)

lemma run_expired_weak:
  "run [SP_raw 1 (Some 7), WP_from_shared 1 1, SP_Reset 1 None] (init no_members) = Some expired_weak"
  by (simp add: model_defs expired_weak_def)

lemma invar_two_owners: "invar two_owners"
  using invar_run [OF invar_init run_two_owners] .

lemma invar_sole_owner: "invar sole_owner"
  using invar_run [OF invar_init run_sole_owner] .

lemma invar_expired_weak: "invar expired_weak"
  using invar_run [OF invar_init run_expired_weak] .

lemma run_two_blocks:
  "run [SP_raw 1 (Some 7), WP_from_shared 1 1, SP_raw 2 (Some 8)] (init no_members) = Some two_blocks"
  by (simp add: model_defs two_blocks_def)

lemma invar_two_blocks: "invar two_blocks"
  using invar_run [OF invar_init run_two_blocks] .

lemma Expired_two_owners: "WeakPtr_Expired 1 two_owners = Some False"
  by (simp add: WeakPtr_Expired_def WeakPtr_UseCount_def two_owners_def)

lemma Expired_expired_weak: "WeakPtr_Expired 1 expired_weak = Some True"
  by (simp add: WeakPtr_Expired_def WeakPtr_UseCount_def expired_weak_def)


lemma run_two_observers:
  "run [SP_raw 1 (Some 7), WP_from_shared 1 1, WP_copy 2 1] (init no_members) = Some two_observers"
  by (simp add: model_defs two_observers_def)

lemma invar_two_observers: "invar two_observers"
  using invar_run [OF invar_init run_two_observers] .

lemma plain_release_no_members: "layout s = no_members \<Longrightarrow> plain_release h s"
  by (simp add: plain_release_def stores_no_handle_def no_members_def split: option.splits)

text \<open>
  The program \<open>Node* n2 = new Node; SharedPtr<Node> y(n2); WeakPtr<Node> w(y);
  Node* n1 = new Node; SharedPtr<Node> a(n1); a->next = y;\<close> reaches \<open>linked\<close>.
\<close>

lemma run_linked:
  "run [SP_default 20, SP_raw 1 (Some 2), WP_from_shared 1 1, SP_default 10, SP_raw 2 (Some 1),
        SP_assign_copy 10 1] (init node_layout) = Some linked"
  by (simp add: model_defs linked_def fun_eq_iff)

lemma invar_linked: "invar linked"
  using invar_run [OF invar_init run_linked] .


text \<open>
  In \<open>linked\<close>, \<open>Release\<close> on the \<open>SharedPtr\<close> 2 deletes the node 1 and with it the
  member \<open>next\<close>, whose \<open>Release\<close> takes the block 0 from 2 to 1; then the block 1 is
  deallocated.
\<close>

lemma Release_linked:
  "SharedPtr_Release 2 linked =
     Some (linked\<lparr>blocks := [0 \<mapsto> \<lparr>strong_count = 1, weak_count = 1\<rparr>],
                  shared := [20 \<mapsto> \<lparr>ptr = None, counter = None\<rparr>, 1 \<mapsto> \<lparr>ptr = Some 2, counter = Some 0\<rparr>,
                             2 \<mapsto> \<lparr>ptr = Some 1, counter = Some 1\<rparr>],
                  destroyed := [1], freed := [1]\<rparr>)"
  by (simp add: model_defs linked_def node_layout_def fun_eq_iff)

text \<open>
  \<open>a = a->next\<close> when \<open>a\<close> is the only owner of its node: \<open>Release\<close> deletes the
  node, so the operand \<open>a->next\<close> is destroyed before the assignment reads it.
\<close>

lemma assign_from_own_member_undefined:
  "SharedPtr_assign_copy 2 10 linked = None"
  by (simp add: model_defs linked_def node_layout_def)

text \<open>
  \<open>Observer* p = new Observer; SharedPtr<Observer> a(p); p->self = a;\<close> returns, and
  the destructor of \<open>a\<close> then is undefined: \<open>delete ptr_\<close> destroys the member \<open>self\<close>,
  the last \<open>WeakPtr\<close> of the block, whose \<open>Release\<close> finds \<open>strong_count = 0\<close> and
  deallocates the block; back in \<open>SharedPtr::Release\<close>, line 33 reads
  \<open>counter_->weak_count\<close> of the deallocated block.
\<close>

lemma Release_reads_deallocated_block:
  "run [WP_default 10, SP_raw 1 (Some 1), WP_assign_shared 10 1] (init observer_layout) =
     Some \<lparr>blocks = [0 \<mapsto> \<lparr>strong_count = 1, weak_count = 1\<rparr>],
           shared = [1 \<mapsto> \<lparr>ptr = Some 1, counter = Some 0\<rparr>],
           weak = [10 \<mapsto> \<lparr>ptr = Some 1, counter = Some 0\<rparr>],
           layout = observer_layout, next_block = 1, next_obj = 0, destroyed = [], freed = []\<rparr> \<and>
   run [WP_default 10, SP_raw 1 (Some 1), WP_assign_shared 10 1, SP_dtor 1] (init observer_layout) = None"
  by (simp add: model_defs observer_layout_def)

section \<open>The claims\<close>

text \<open>
  C1 as the spec states it: for every non-null \<open>p\<close>, also the pointer the handle holds,
  \<open>Reset(p)\<close> releases and adopts \<open>p\<close> with a new block, so that \<open>UseCount() == 1\<close>
  afterwards. With two owners of the object 7, \<open>Reset\<close> of one of them to the same
  pointer changes nothing, and \<open>UseCount()\<close> is still 2: the body of \<open>Reset\<close> is
  guarded by \<open>ptr != ptr_\<close>.
\<close>

theorem SharedPtr_Reset_same_pointer_counterexample:
  "run [SP_raw 1 (Some 7), SP_copy 2 1] (init no_members) \<noteq> None \<and>
   Option.bind (run [SP_raw 1 (Some 7), SP_copy 2 1] (init no_members)) (SharedPtr_Get 1) = Some (Some 7) \<and>
   run [SP_raw 1 (Some 7), SP_copy 2 1, SP_Reset 1 (Some 7)] (init no_members) =
     run [SP_raw 1 (Some 7), SP_copy 2 1] (init no_members) \<and>
   Option.bind (run [SP_raw 1 (Some 7), SP_copy 2 1, SP_Reset 1 (Some 7)] (init no_members))
     (SharedPtr_UseCount 1) = Some 2"
  by (simp add: model_defs)

text \<open>
  C1, amended. In a state that satisfies the invariant, for a live \<open>SharedPtr\<close> \<open>h\<close>
  with fields \<open>t\<close>:
  \<^item> \<open>Reset(p)\<close> with \<open>p\<close> the pointer the handle holds (null included) changes nothing;
  \<^item> when the release is plain (the handle is null, or not the last owner, or its object
    stores no live handle), \<open>Release\<close> returns a state, in which every handle is still
    alive (lemmas \<open>SharedPtr_Release_null\<close> and \<open>SharedPtr_Release_block\<close> say which
    state);
  \<^item> whenever \<open>Release\<close> returns a state \<open>s1\<close> in which \<open>h\<close> is still alive, \<open>Reset()\<close>
    on a handle that holds an object returns \<open>s1\<close> with the handle null, and \<open>Reset(p)\<close>
    with a non-null \<open>p\<close> that is not the held pointer returns \<open>s1\<close> with a block at an
    address that was not allocated, with counts (1, 0), and the handle set to \<open>p\<close> and
    that block; \<open>UseCount()\<close> is then 1.
  \<open>Release\<close> does not return when it reads a deallocated block
  (\<open>Release_reads_deallocated_block\<close>), and \<open>Reset\<close> is undefined when the release has
  destroyed \<open>h\<close> itself.
\<close>

theorem SharedPtr_Reset_amended:
  assumes "invar s" and "shared s h = Some t"
  shows "(p = ptr t \<longrightarrow> SharedPtr_Reset h p s = Some s) \<and>
     (plain_release h s \<longrightarrow>
        (\<exists>s1. SharedPtr_Release h s = Some s1 \<and> shared s1 = shared s \<and> weak s1 = weak s)) \<and>
     (\<forall>s1. p \<noteq> ptr t \<longrightarrow> SharedPtr_Release h s = Some s1 \<longrightarrow> shared s1 h \<noteq> None \<longrightarrow>
        (p = None \<longrightarrow> SharedPtr_Reset h p s = Some (set_shared h null_Ptr s1)) \<and>
        (\<forall>a. p = Some a \<longrightarrow>
           blocks s1 (next_block s1) = None \<and>
           SharedPtr_Reset h p s =
             Some (s1\<lparr>blocks := (blocks s1)(next_block s1 \<mapsto> \<lparr>strong_count = 1, weak_count = 0\<rparr>),
                      shared := (shared s1)(h \<mapsto> \<lparr>ptr = Some a, counter = Some (next_block s1)\<rparr>),
                      next_block := Suc (next_block s1)\<rparr>) \<and>
           Option.bind (SharedPtr_Reset h p s) (SharedPtr_UseCount h) = Some 1))"
proof (intro conjI impI allI)
  assume "p = ptr t"
  then show "SharedPtr_Reset h p s = Some s"
    using assms(2) by (simp add: SharedPtr_Reset_def)
next
  assume "plain_release h s"
  then show "\<exists>s1. SharedPtr_Release h s = Some s1 \<and> shared s1 = shared s \<and> weak s1 = weak s"
    by (rule SharedPtr_Release_plain [OF assms])
next
  fix s1
  assume a: "p \<noteq> ptr t" "SharedPtr_Release h s = Some s1" "shared s1 h \<noteq> None" "p = None"
  then show "SharedPtr_Reset h p s = Some (set_shared h null_Ptr s1)"
    using assms(2) by (auto simp: SharedPtr_Reset_def null_Ptr_def)
next
  fix s1 a
  assume a: "p \<noteq> ptr t" "SharedPtr_Release h s = Some s1" "shared s1 h \<noteq> None" "p = Some a"
  have "invar (s1\<lparr>shared := (shared s1)(h := None)\<rparr>)"
    by (rule SharedPtr_released(1) [OF assms(1) a(2,3)])
  from invar_fresh_block [OF this]
  show fresh: "blocks s1 (next_block s1) = None" by simp
  show r: "SharedPtr_Reset h p s =
             Some (s1\<lparr>blocks := (blocks s1)(next_block s1 \<mapsto> \<lparr>strong_count = 1, weak_count = 0\<rparr>),
                      shared := (shared s1)(h \<mapsto> \<lparr>ptr = Some a, counter = Some (next_block s1)\<rparr>),
                      next_block := Suc (next_block s1)\<rparr>)"
    using a assms(2)
    by (auto simp: SharedPtr_Reset_def new_Counter_def Counter_new_def set_shared_def)
  show "Option.bind (SharedPtr_Reset h p s) (SharedPtr_UseCount h) = Some 1"
    unfolding r by (simp add: SharedPtr_UseCount_def)
qed

theorem SharedPtr_Reset_amended_witness:
  "invar two_owners \<and> shared two_owners 1 = Some \<lparr>ptr = Some 7, counter = Some 0\<rparr> \<and>
   plain_release 1 two_owners \<and>
   SharedPtr_Release 1 two_owners =
     Some (two_owners\<lparr>blocks := [0 \<mapsto> \<lparr>strong_count = 1, weak_count = 1\<rparr>]\<rparr>) \<and>
   SharedPtr_Reset 1 (Some 7) two_owners = Some two_owners \<and>
   SharedPtr_Reset 1 None two_owners =
     Some (two_owners\<lparr>blocks := [0 \<mapsto> \<lparr>strong_count = 1, weak_count = 1\<rparr>],
                      shared := (shared two_owners)(1 \<mapsto> null_Ptr)\<rparr>) \<and>
   SharedPtr_Reset 1 (Some 9) two_owners =
     Some (two_owners\<lparr>blocks := [0 \<mapsto> \<lparr>strong_count = 1, weak_count = 1\<rparr>,
                                 1 \<mapsto> \<lparr>strong_count = 1, weak_count = 0\<rparr>],
                      shared := (shared two_owners)(1 \<mapsto> \<lparr>ptr = Some 9, counter = Some 1\<rparr>),
                      next_block := 2\<rparr>) \<and>
   Option.bind (SharedPtr_Reset 1 (Some 9) two_owners) (SharedPtr_UseCount 1) = Some 1 \<and>
   invar linked \<and> shared linked 2 = Some \<lparr>ptr = Some 1, counter = Some 1\<rparr> \<and>
   SharedPtr_Reset 2 None linked =
     Some (linked\<lparr>blocks := [0 \<mapsto> \<lparr>strong_count = 1, weak_count = 1\<rparr>],
                  shared := [20 \<mapsto> null_Ptr, 1 \<mapsto> \<lparr>ptr = Some 2, counter = Some 0\<rparr>, 2 \<mapsto> null_Ptr],
                  destroyed := [1], freed := [1]\<rparr>)"
proof -
  have p: "plain_release 1 two_owners"
    by (rule plain_release_no_members) (simp add: two_owners_def)
  have r: "SharedPtr_Release 1 two_owners =
     Some (two_owners\<lparr>blocks := [0 \<mapsto> \<lparr>strong_count = 1, weak_count = 1\<rparr>]\<rparr>)"
    by (simp add: model_defs two_owners_def)
  have t: "shared two_owners 1 = Some \<lparr>ptr = Some 7, counter = Some 0\<rparr>"
    "shared linked 2 = Some \<lparr>ptr = Some 1, counter = Some 1\<rparr>"
    by (simp_all add: two_owners_def linked_def)
  have "SharedPtr_Reset 1 (Some 7) two_owners = Some two_owners"
    using SharedPtr_Reset_amended [OF invar_two_owners t(1), of "Some 7"] by simp
  moreover have "SharedPtr_Reset 1 None two_owners =
     Some (two_owners\<lparr>blocks := [0 \<mapsto> \<lparr>strong_count = 1, weak_count = 1\<rparr>],
                      shared := (shared two_owners)(1 \<mapsto> null_Ptr)\<rparr>)"
    using SharedPtr_Reset_amended [OF invar_two_owners t(1), of None] r
    by (simp add: set_shared_def two_owners_def fun_eq_iff)
  moreover have "SharedPtr_Reset 1 (Some 9) two_owners =
     Some (two_owners\<lparr>blocks := [0 \<mapsto> \<lparr>strong_count = 1, weak_count = 1\<rparr>,
                                 1 \<mapsto> \<lparr>strong_count = 1, weak_count = 0\<rparr>],
                      shared := (shared two_owners)(1 \<mapsto> \<lparr>ptr = Some 9, counter = Some 1\<rparr>),
                      next_block := 2\<rparr>) \<and>
   Option.bind (SharedPtr_Reset 1 (Some 9) two_owners) (SharedPtr_UseCount 1) = Some 1"
    using SharedPtr_Reset_amended [OF invar_two_owners t(1), of "Some 9"] r
    by (simp add: two_owners_def fun_eq_iff SharedPtr_UseCount_def)
  moreover have "SharedPtr_Reset 2 None linked =
     Some (linked\<lparr>blocks := [0 \<mapsto> \<lparr>strong_count = 1, weak_count = 1\<rparr>],
                  shared := [20 \<mapsto> null_Ptr, 1 \<mapsto> \<lparr>ptr = Some 2, counter = Some 0\<rparr>, 2 \<mapsto> null_Ptr],
                  destroyed := [1], freed := [1]\<rparr>)"
    using SharedPtr_Reset_amended [OF invar_linked t(2), of None] Release_linked
    by (simp add: set_shared_def null_Ptr_def linked_def fun_eq_iff)
  ultimately show ?thesis
    using p r t invar_two_owners invar_linked by (simp add: SharedPtr_UseCount_def)
qed

text \<open>
  C2. The claim: once a control block has \<open>strong_count = 0\<close> and \<open>weak_count > 0\<close>, no
  operation makes its \<open>strong_count\<close> positive again; in particular assigning a
  \<open>WeakPtr\<close> to the only \<open>SharedPtr\<close> of the same block does not pass through
  \<open>strong_count = 0\<close> and back to 1. The code does pass through it: in the state
  reached by \<open>SharedPtr a(p); WeakPtr w(a);\<close> the assignment \<open>a = w\<close> first runs
  \<open>Release\<close>, which takes the block from (1, 1) to (0, 1) and deletes the object, and
  then increments \<open>strong_count\<close> back to 1, so that \<open>a.Get()\<close> is the deleted object.
  The object stores no handle.
\<close>

theorem assign_weak_sole_owner_revives:
  "run [SP_raw 1 (Some 7), WP_from_shared 1 1] (init no_members) = Some sole_owner \<and>
   SharedPtr_Release 1 sole_owner =
     Some (sole_owner\<lparr>blocks := [0 \<mapsto> \<lparr>strong_count = 0, weak_count = 1\<rparr>], destroyed := [7]\<rparr>) \<and>
   SharedPtr_assign_weak 1 1 sole_owner =
     Returns (sole_owner\<lparr>blocks := [0 \<mapsto> \<lparr>strong_count = 1, weak_count = 1\<rparr>], destroyed := [7]\<rparr>) \<and>
   SharedPtr_Get 1 (sole_owner\<lparr>blocks := [0 \<mapsto> \<lparr>strong_count = 1, weak_count = 1\<rparr>], destroyed := [7]\<rparr>)
     = Some (Some 7)"
  by (simp add: model_defs sole_owner_def)

text \<open>
  C3. The claim: over any sequence of operations the managed object is destroyed exactly
  once and the control block deallocated exactly once, also when a \<open>SharedPtr\<close> that is
  the only owner is assigned from a \<open>WeakPtr\<close> of the same block. The code destroys the
  object twice in the program
  \<open>SharedPtr a(p); WeakPtr w(a); a = w; ~a; ~w\<close>: once inside the assignment and once
  in the destructor of \<open>a\<close>. The block is deallocated once. The object stores no handle.
\<close>

theorem assign_weak_sole_owner_double_destruction:
  "run [SP_raw 1 (Some 7), WP_from_shared 1 1, SP_assign_weak 1 1, SP_dtor 1, WP_dtor 1] (init no_members) =
     Some \<lparr>blocks = Map.empty, shared = Map.empty, weak = Map.empty, layout = no_members,
           next_block = 1, next_obj = 0, destroyed = [7, 7], freed = [0]\<rparr>"
  by (simp add: model_defs)




text \<open>
  C5. In a state that satisfies the invariant, for a live \<open>WeakPtr\<close> \<open>w\<close> with fields
  \<open>x\<close>, \<open>Lock()\<close> never throws. If \<open>w\<close> is expired it returns a null \<open>SharedPtr\<close> and
  changes nothing else. If not, \<open>w\<close> has a block; the returned \<open>SharedPtr\<close> holds
  \<open>w\<close>'s fields, so \<open>Get()\<close> is \<open>w\<close>'s object; \<open>strong_count\<close> of the block is one
  higher, without wrap-around, \<open>weak_count\<close> is unchanged and nothing is deleted.
\<close>

theorem WeakPtr_Lock_spec:
  assumes "invar s" and "weak s w = Some x" and "fresh_shared h s"
  shows "(\<forall>e s'. WeakPtr_Lock w h s \<noteq> Throws e s') \<and>
    (WeakPtr_Expired w s = Some True \<or> WeakPtr_Expired w s = Some False) \<and>
    (WeakPtr_Expired w s = Some True \<longrightarrow>
       WeakPtr_Lock w h s = Returns (set_shared h null_Ptr s) \<and>
       SharedPtr_Get h (set_shared h null_Ptr s) = Some None) \<and>
    (WeakPtr_Expired w s = Some False \<longrightarrow>
       (\<exists>c b s'. counter x = Some c \<and> blocks s c = Some b \<and>
          WeakPtr_Lock w h s = Returns s' \<and>
          SharedPtr_Get h s' = Some (ptr x) \<and>
          shared s' = (shared s)(h \<mapsto> x) \<and>
          blocks s' = (blocks s)(c \<mapsto> b\<lparr>strong_count := strong_count b + 1\<rparr>) \<and>
          unat (strong_count b + 1) = Suc (unat (strong_count b)) \<and>
          weak s' = weak s \<and> destroyed s' = destroyed s \<and> freed s' = freed s))"
proof (intro conjI impI)
  show "\<forall>e s'. WeakPtr_Lock w h s \<noteq> Throws e s'"
    by (auto simp: WeakPtr_Lock_def SharedPtr_from_weak_def lift_def
             split: option.splits bool.splits if_splits)
  show "WeakPtr_Expired w s = Some True \<or> WeakPtr_Expired w s = Some False"
    using invar_Expired [OF assms(1,2)] .
next
  assume "WeakPtr_Expired w s = Some True"
  then show "WeakPtr_Lock w h s = Returns (set_shared h null_Ptr s)"
    using assms(3) by (simp add: WeakPtr_Lock_def SharedPtr_default_def lift_def null_Ptr_def)
  show "SharedPtr_Get h (set_shared h null_Ptr s) = Some None"
    by (simp add: SharedPtr_Get_def set_shared_def null_Ptr_def)
next
  assume e: "WeakPtr_Expired w s = Some False"
  from not_Expired [OF assms(2) e] obtain c b where
    cb: "counter x = Some c" "blocks s c = Some b" by blast
  have "h \<noteq> 0" "h \<notin> refs (shared s) c"
    using assms(3) by (simp_all add: refs_notin fresh_shared_def)
  then have nw: "unat (strong_count b + 1) = Suc (unat (strong_count b))"
    by (rule no_wrap_strong [OF assms(1) cb(2)])
  let ?s' = "s\<lparr>blocks := (blocks s)(c \<mapsto> b\<lparr>strong_count := strong_count b + 1\<rparr>),
               shared := (shared s)(h \<mapsto> x)\<rparr>"
  have "WeakPtr_Lock w h s = Returns ?s'"
    using e assms(2,3) cb
    by (simp add: WeakPtr_Lock_def SharedPtr_from_weak_def lift_def set_shared_def inc_strong_def)
  then show "\<exists>c b s'. counter x = Some c \<and> blocks s c = Some b \<and>
          WeakPtr_Lock w h s = Returns s' \<and>
          SharedPtr_Get h s' = Some (ptr x) \<and>
          shared s' = (shared s)(h \<mapsto> x) \<and>
          blocks s' = (blocks s)(c \<mapsto> b\<lparr>strong_count := strong_count b + 1\<rparr>) \<and>
          unat (strong_count b + 1) = Suc (unat (strong_count b)) \<and>
          weak s' = weak s \<and> destroyed s' = destroyed s \<and> freed s' = freed s"
    using cb nw
    by (intro exI [of _ c] exI [of _ b] exI [of _ ?s']) (simp add: SharedPtr_Get_def)
qed

theorem WeakPtr_Lock_spec_witness:
  "invar two_owners \<and> weak two_owners 1 = Some \<lparr>ptr = Some 7, counter = Some 0\<rparr> \<and>
   fresh_shared 3 two_owners \<and> WeakPtr_Expired 1 two_owners = Some False \<and>
   WeakPtr_Lock 1 3 two_owners =
     Returns (two_owners\<lparr>blocks := [0 \<mapsto> \<lparr>strong_count = 3, weak_count = 1\<rparr>],
                         shared := (shared two_owners)(3 \<mapsto> \<lparr>ptr = Some 7, counter = Some 0\<rparr>)\<rparr>) \<and>
   invar expired_weak \<and> weak expired_weak 1 = Some \<lparr>ptr = Some 7, counter = Some 0\<rparr> \<and>
   fresh_shared 3 expired_weak \<and> WeakPtr_Expired 1 expired_weak = Some True \<and>
   WeakPtr_Lock 1 3 expired_weak = Returns (set_shared 3 null_Ptr expired_weak)"
proof -
  have a: "weak two_owners 1 = Some \<lparr>ptr = Some 7, counter = Some 0\<rparr>" "fresh_shared 3 two_owners"
    by (simp_all add: two_owners_def fresh_shared_def)
  have b: "weak expired_weak 1 = Some \<lparr>ptr = Some 7, counter = Some 0\<rparr>" "fresh_shared 3 expired_weak"
    by (simp_all add: expired_weak_def fresh_shared_def)
  have "WeakPtr_Lock 1 3 expired_weak = Returns (set_shared 3 null_Ptr expired_weak)"
    using WeakPtr_Lock_spec [OF invar_expired_weak b] Expired_expired_weak by simp
  moreover have "WeakPtr_Lock 1 3 two_owners =
     Returns (two_owners\<lparr>blocks := [0 \<mapsto> \<lparr>strong_count = 3, weak_count = 1\<rparr>],
                         shared := (shared two_owners)(3 \<mapsto> \<lparr>ptr = Some 7, counter = Some 0\<rparr>)\<rparr>)"
    using WeakPtr_Lock_spec [OF invar_two_owners a] Expired_two_owners
    by (simp add: model_defs two_owners_def)
  ultimately show ?thesis
    using a b invar_two_owners invar_expired_weak Expired_two_owners Expired_expired_weak by simp
qed



text \<open>
  C7 as the spec states it: move assignment changes no count and gives the destination
  the source's prior counts. With two owners \<open>a\<close> and \<open>b\<close> of one block, \<open>UseCount()\<close> of
  the source \<open>b\<close> is 2; after \<open>a = std::move(b)\<close> the destination \<open>a\<close> holds the same
  object and its \<open>UseCount()\<close> is 1: the assignment released \<open>a\<close>'s own share first.
\<close>

theorem move_counterexample:
  "Option.bind (run [SP_raw 1 (Some 7), SP_copy 2 1] (init no_members)) (SharedPtr_UseCount 2) = Some 2 \<and>
   Option.bind (run [SP_raw 1 (Some 7), SP_copy 2 1, SP_assign_move 1 2] (init no_members))
     (SharedPtr_Get 1) = Some (Some 7) \<and>
   Option.bind (run [SP_raw 1 (Some 7), SP_copy 2 1, SP_assign_move 1 2] (init no_members))
     (SharedPtr_UseCount 1) = Some 1"
  by (simp add: model_defs)

text \<open>
  C7, amended. In a state that satisfies the invariant:
  \<^item> move construction of a \<open>SharedPtr\<close> or a \<open>WeakPtr\<close> gives the new handle the
    source's fields, makes the source null and changes nothing else, so no count;
  \<^item> move assignment to a live \<open>SharedPtr\<close> other than the source first runs \<open>Release\<close>
    on the destination; whenever that returns a state \<open>s1\<close> in which both handles are
    still alive, the assignment returns \<open>s1\<close> with the source's fields in the
    destination and the source null: after the release nothing but the two handles
    changes, so no count. The release itself changes counts: if the destination's
    previous block is the source's block, its strong count was at least 2 and the
    release takes one off and deletes nothing; if the release is plain, it returns, every
    handle is still alive and the counts of every block other than the destination's
    previous block are as before. A release that deletes an object that stores handles
    changes the counts of their blocks too (lemma \<open>Release_linked\<close>);
  \<^item> move assignment to a live \<open>WeakPtr\<close> other than the source first runs \<open>Release\<close> on
    the destination, which returns; then it gives the destination the source's fields and
    makes the source null; the counts of every block other than the destination's
    previous block are as before; if the destination's previous block is the source's
    block, its weak count was at least 2 and is one less afterwards.
  Move assignment of a handle to itself is C8.
\<close>

theorem move_amended:
  assumes "invar s"
  shows "(\<forall>x. fresh_shared h s \<longrightarrow> shared s other = Some x \<longrightarrow>
            SharedPtr_move h other s = Some (s\<lparr>shared := (shared s)(h \<mapsto> x, other \<mapsto> null_Ptr)\<rparr>)) \<and>
         (\<forall>x. fresh_weak h s \<longrightarrow> weak s other = Some x \<longrightarrow>
            WeakPtr_move h other s = Some (s\<lparr>weak := (weak s)(h \<mapsto> x, other \<mapsto> null_Ptr)\<rparr>)) \<and>
         (\<forall>t x s1. h \<noteq> other \<longrightarrow> shared s h = Some t \<longrightarrow> shared s other = Some x \<longrightarrow>
            SharedPtr_Release h s = Some s1 \<longrightarrow> shared s1 h \<noteq> None \<longrightarrow> shared s1 other \<noteq> None \<longrightarrow>
            SharedPtr_assign_move h other s =
              Some (s1\<lparr>shared := (shared s1)(h \<mapsto> x, other \<mapsto> null_Ptr)\<rparr>)) \<and>
         (\<forall>t x c b. h \<noteq> other \<longrightarrow> shared s h = Some t \<longrightarrow> shared s other = Some x \<longrightarrow>
            counter t = Some c \<longrightarrow> counter x = Some c \<longrightarrow> blocks s c = Some b \<longrightarrow>
            SharedPtr_Release h s =
              Some (s\<lparr>blocks := (blocks s)(c \<mapsto> b\<lparr>strong_count := strong_count b - 1\<rparr>)\<rparr>) \<and>
            2 \<le> unat (strong_count b) \<and>
            unat (strong_count b - 1) = unat (strong_count b) - 1) \<and>
         (\<forall>t. shared s h = Some t \<longrightarrow> plain_release h s \<longrightarrow>
            (\<exists>s1. SharedPtr_Release h s = Some s1 \<and> shared s1 = shared s \<and> weak s1 = weak s \<and>
               (\<forall>c. counter t \<noteq> Some c \<longrightarrow> blocks s1 c = blocks s c))) \<and>
         (\<forall>t x. h \<noteq> other \<longrightarrow> weak s h = Some t \<longrightarrow> weak s other = Some x \<longrightarrow>
            (\<exists>s1. WeakPtr_Release h s = Some s1 \<and>
               WeakPtr_assign_move h other s =
                 Some (s1\<lparr>weak := (weak s)(h \<mapsto> x, other \<mapsto> null_Ptr)\<rparr>) \<and>
               (\<forall>c. counter t \<noteq> Some c \<longrightarrow> blocks s1 c = blocks s c) \<and>
               (\<forall>c b. counter t = Some c \<longrightarrow> counter x = Some c \<longrightarrow> blocks s c = Some b \<longrightarrow>
                  blocks s1 c = Some (b\<lparr>weak_count := weak_count b - 1\<rparr>) \<and>
                  2 \<le> unat (weak_count b) \<and>
                  unat (weak_count b - 1) = unat (weak_count b) - 1)))"
proof (intro conjI allI impI)
  fix x assume "fresh_shared h s" "shared s other = Some x"
  then show "SharedPtr_move h other s = Some (s\<lparr>shared := (shared s)(h \<mapsto> x, other \<mapsto> null_Ptr)\<rparr>)"
    by (simp add: SharedPtr_move_def set_shared_def null_Ptr_def)
next
  fix x assume "fresh_weak h s" "weak s other = Some x"
  then show "WeakPtr_move h other s = Some (s\<lparr>weak := (weak s)(h \<mapsto> x, other \<mapsto> null_Ptr)\<rparr>)"
    by (simp add: WeakPtr_move_def set_weak_def null_Ptr_def)
next
  fix t x s1
  assume a: "h \<noteq> other" "shared s h = Some t" "shared s other = Some x"
    "SharedPtr_Release h s = Some s1" "shared s1 h \<noteq> None" "shared s1 other \<noteq> None"
  have "shared s1 other = Some x"
    using a(3,6) SharedPtr_Release_frame [OF a(4)] by fastforce
  then show "SharedPtr_assign_move h other s =
              Some (s1\<lparr>shared := (shared s1)(h \<mapsto> x, other \<mapsto> null_Ptr)\<rparr>)"
    using a by (auto simp: SharedPtr_assign_move_def set_shared_def null_Ptr_def)
next
  fix t x c b
  assume a: "h \<noteq> other" "shared s h = Some t" "shared s other = Some x"
    and c: "counter t = Some c" "counter x = Some c" "blocks s c = Some b"
  have "unat (strong_count b) = card (refs (shared s) c)"
    using assms c(3) by (auto simp: invar_def counts_ok_def)
  from two_refs [OF this a(2,3,1) c(1,2)]
  have n: "2 \<le> unat (strong_count b)" "strong_count b \<noteq> 1"
    "unat (strong_count b - 1) = unat (strong_count b) - 1" .
  show "SharedPtr_Release h s =
              Some (s\<lparr>blocks := (blocks s)(c \<mapsto> b\<lparr>strong_count := strong_count b - 1\<rparr>)\<rparr>)"
    using SharedPtr_Release_block [OF a(2) c(1,3)] n(2) by simp
  show "2 \<le> unat (strong_count b)" by (rule n(1))
  show "unat (strong_count b - 1) = unat (strong_count b) - 1" by (rule n(3))
next
  fix t assume t: "shared s h = Some t" "plain_release h s"
  show "\<exists>s1. SharedPtr_Release h s = Some s1 \<and> shared s1 = shared s \<and> weak s1 = weak s \<and>
               (\<forall>c. counter t \<noteq> Some c \<longrightarrow> blocks s1 c = blocks s c)"
  proof (cases "counter t")
    case None
    then show ?thesis using SharedPtr_Release_null [OF t(1)] by simp
  next
    case (Some c')
    from invar_alloc_shared [OF assms t(1) Some] obtain b' where b': "blocks s c' = Some b'"
      by blast
    have "strong_count b' = 1 \<Longrightarrow> stores_no_handle s (ptr t)"
      using t Some b' by (simp add: plain_release_def)
    from SharedPtr_Release_block [OF t(1) Some b' this]
    show ?thesis
      using Some by (auto simp: logged_def delete_Counter_def split: option.splits)
  qed
next
  fix t x assume a: "h \<noteq> other" "weak s h = Some t" "weak s other = Some x"
  from invar_WeakPtr_Release [OF assms a(2)] obtain s1 where
    s1: "WeakPtr_Release h s = Some s1" by blast
  have fr: "weak s1 = weak s" using WeakPtr_Release_frame [OF s1] by simp
  have mv: "WeakPtr_assign_move h other s =
                 Some (s1\<lparr>weak := (weak s)(h \<mapsto> x, other \<mapsto> null_Ptr)\<rparr>)"
    using a s1 fr by (simp add: WeakPtr_assign_move_def set_weak_def null_Ptr_def)
  have oth: "\<forall>c. counter t \<noteq> Some c \<longrightarrow> blocks s1 c = blocks s c"
    using WeakPtr_Release_blocks_other [OF s1 a(2)] by blast
  have sh: "blocks s1 c = Some (b\<lparr>weak_count := weak_count b - 1\<rparr>) \<and>
            2 \<le> unat (weak_count b) \<and> unat (weak_count b - 1) = unat (weak_count b) - 1"
    if c: "counter t = Some c" "counter x = Some c" "blocks s c = Some b" for c b
  proof -
    have "unat (weak_count b) = card (refs (weak s) c)"
      using assms c(3) by (auto simp: invar_def counts_ok_def)
    from two_refs [OF this a(2,3,1) c(1,2)]
    have n: "2 \<le> unat (weak_count b)" "weak_count b \<noteq> 1"
      "unat (weak_count b - 1) = unat (weak_count b) - 1" .
    have "blocks s1 c = Some (b\<lparr>weak_count := weak_count b - 1\<rparr>)"
      using WeakPtr_Release_block [OF a(2) c(1,3)] n(2) s1 by auto
    then show ?thesis using n by simp
  qed
  show "\<exists>s1. WeakPtr_Release h s = Some s1 \<and>
               WeakPtr_assign_move h other s =
                 Some (s1\<lparr>weak := (weak s)(h \<mapsto> x, other \<mapsto> null_Ptr)\<rparr>) \<and>
               (\<forall>c. counter t \<noteq> Some c \<longrightarrow> blocks s1 c = blocks s c) \<and>
               (\<forall>c b. counter t = Some c \<longrightarrow> counter x = Some c \<longrightarrow> blocks s c = Some b \<longrightarrow>
                  blocks s1 c = Some (b\<lparr>weak_count := weak_count b - 1\<rparr>) \<and>
                  2 \<le> unat (weak_count b) \<and>
                  unat (weak_count b - 1) = unat (weak_count b) - 1)"
    using s1 mv oth sh by (intro exI [of _ s1]) blast
qed

theorem move_amended_witness:
  "invar two_owners \<and> invar two_blocks \<and> invar two_observers \<and> invar linked \<and>
   fresh_shared 3 two_owners \<and> fresh_weak 2 two_owners \<and> plain_release 2 two_blocks \<and>
   SharedPtr_move 3 1 two_owners =
     Some (two_owners\<lparr>shared := (shared two_owners)(3 \<mapsto> \<lparr>ptr = Some 7, counter = Some 0\<rparr>, 1 \<mapsto> null_Ptr)\<rparr>) \<and>
   WeakPtr_move 2 1 two_owners =
     Some (two_owners\<lparr>weak := (weak two_owners)(2 \<mapsto> \<lparr>ptr = Some 7, counter = Some 0\<rparr>, 1 \<mapsto> null_Ptr)\<rparr>) \<and>
   SharedPtr_assign_move 1 2 two_owners =
     Some (two_owners\<lparr>blocks := [0 \<mapsto> \<lparr>strong_count = 1, weak_count = 1\<rparr>],
                      shared := (shared two_owners)(1 \<mapsto> \<lparr>ptr = Some 7, counter = Some 0\<rparr>, 2 \<mapsto> null_Ptr)\<rparr>) \<and>
   SharedPtr_assign_move 2 1 two_blocks =
     Some (two_blocks\<lparr>blocks := [0 \<mapsto> \<lparr>strong_count = 1, weak_count = 1\<rparr>],
                      shared := (shared two_blocks)(2 \<mapsto> \<lparr>ptr = Some 7, counter = Some 0\<rparr>, 1 \<mapsto> null_Ptr),
                      destroyed := [8], freed := [1]\<rparr>) \<and>
   SharedPtr_assign_move 2 1 linked =
     Some (linked\<lparr>blocks := [0 \<mapsto> \<lparr>strong_count = 1, weak_count = 1\<rparr>],
                  shared := [20 \<mapsto> null_Ptr, 1 \<mapsto> null_Ptr, 2 \<mapsto> \<lparr>ptr = Some 2, counter = Some 0\<rparr>],
                  destroyed := [1], freed := [1]\<rparr>) \<and>
   WeakPtr_assign_move 1 2 two_observers =
     Some (two_observers\<lparr>blocks := [0 \<mapsto> \<lparr>strong_count = 1, weak_count = 1\<rparr>],
                      weak := (weak two_observers)(1 \<mapsto> \<lparr>ptr = Some 7, counter = Some 0\<rparr>, 2 \<mapsto> null_Ptr)\<rparr>)"
proof -
  have f: "fresh_shared 3 two_owners" "fresh_weak 2 two_owners"
    by (simp_all add: fresh_shared_def fresh_weak_def two_owners_def)
  have p: "plain_release 2 two_blocks"
    by (rule plain_release_no_members) (simp add: two_blocks_def)
  have "SharedPtr_move 3 1 two_owners =
     Some (two_owners\<lparr>shared := (shared two_owners)(3 \<mapsto> \<lparr>ptr = Some 7, counter = Some 0\<rparr>, 1 \<mapsto> null_Ptr)\<rparr>)"
    using move_amended [OF invar_two_owners, of 3 1] f by (simp add: two_owners_def)
  moreover have "WeakPtr_move 2 1 two_owners =
     Some (two_owners\<lparr>weak := (weak two_owners)(2 \<mapsto> \<lparr>ptr = Some 7, counter = Some 0\<rparr>, 1 \<mapsto> null_Ptr)\<rparr>)"
    using move_amended [OF invar_two_owners, of 2 1] f by (simp add: two_owners_def)
  moreover have "SharedPtr_assign_move 1 2 two_owners =
     Some (two_owners\<lparr>blocks := [0 \<mapsto> \<lparr>strong_count = 1, weak_count = 1\<rparr>],
                      shared := (shared two_owners)(1 \<mapsto> \<lparr>ptr = Some 7, counter = Some 0\<rparr>, 2 \<mapsto> null_Ptr)\<rparr>)"
    using move_amended [OF invar_two_owners, of 1 2]
    by (simp add: model_defs two_owners_def null_Ptr_def fun_eq_iff)
  moreover have "SharedPtr_assign_move 2 1 two_blocks =
     Some (two_blocks\<lparr>blocks := [0 \<mapsto> \<lparr>strong_count = 1, weak_count = 1\<rparr>],
                      shared := (shared two_blocks)(2 \<mapsto> \<lparr>ptr = Some 7, counter = Some 0\<rparr>, 1 \<mapsto> null_Ptr),
                      destroyed := [8], freed := [1]\<rparr>)"
    using move_amended [OF invar_two_blocks, of 2 1]
    by (simp add: model_defs two_blocks_def null_Ptr_def fun_eq_iff)
  moreover have "SharedPtr_assign_move 2 1 linked =
     Some (linked\<lparr>blocks := [0 \<mapsto> \<lparr>strong_count = 1, weak_count = 1\<rparr>],
                  shared := [20 \<mapsto> null_Ptr, 1 \<mapsto> null_Ptr, 2 \<mapsto> \<lparr>ptr = Some 2, counter = Some 0\<rparr>],
                  destroyed := [1], freed := [1]\<rparr>)"
    using move_amended [OF invar_linked, of 2 1]
    by (simp add: model_defs linked_def node_layout_def null_Ptr_def fun_eq_iff)
  moreover have "WeakPtr_assign_move 1 2 two_observers =
     Some (two_observers\<lparr>blocks := [0 \<mapsto> \<lparr>strong_count = 1, weak_count = 1\<rparr>],
                      weak := (weak two_observers)(1 \<mapsto> \<lparr>ptr = Some 7, counter = Some 0\<rparr>, 2 \<mapsto> null_Ptr)\<rparr>)"
    using move_amended [OF invar_two_observers, of 1 2]
    by (simp add: model_defs two_observers_def null_Ptr_def fun_eq_iff)
  ultimately show ?thesis
    using f p invar_two_owners invar_two_blocks invar_two_observers invar_linked by simp
qed

text \<open>
  C8. Assigning a live handle from itself, by copy or by move, returns the state as it
  was: the handle's fields, every count and both logs of deletions are unchanged. This
  holds for \<open>SharedPtr\<close> and for \<open>WeakPtr\<close>.
\<close>

theorem self_assignment_noop:
  "(shared s h \<noteq> None \<longrightarrow>
      SharedPtr_assign_copy h h s = Some s \<and> SharedPtr_assign_move h h s = Some s) \<and>
   (weak s w \<noteq> None \<longrightarrow>
      WeakPtr_assign_copy w w s = Some s \<and> WeakPtr_assign_move w w s = Some s)"
  by (auto simp: SharedPtr_assign_copy_def SharedPtr_assign_move_def
                 WeakPtr_assign_copy_def WeakPtr_assign_move_def)

theorem self_assignment_noop_witness:
  "shared two_owners 1 \<noteq> None \<and> weak two_owners 1 \<noteq> None \<and>
   SharedPtr_assign_copy 1 1 two_owners = Some two_owners \<and>
   SharedPtr_assign_move 1 1 two_owners = Some two_owners \<and>
   WeakPtr_assign_copy 1 1 two_owners = Some two_owners \<and>
   WeakPtr_assign_move 1 1 two_owners = Some two_owners"
  using self_assignment_noop [of two_owners 1 1] by (simp add: two_owners_def)



text \<open>
  C10. In a state that satisfies the invariant, let \<open>sp\<close> be a null \<open>SharedPtr\<close>.
  Constructing a \<open>WeakPtr\<close> from it returns the state with the new \<open>WeakPtr\<close> null and
  nothing else changed. Assigning it to a live \<open>WeakPtr\<close> returns the state that
  \<open>WeakPtr::Release\<close> returns, with that \<open>WeakPtr\<close> null: no count is touched after the
  release. In both cases \<open>UseCount()\<close> is 0 and \<open>Expired()\<close> is true afterwards.
\<close>

theorem WeakPtr_from_null_SharedPtr:
  assumes "invar s" and "shared s sp = Some null_Ptr"
  shows "(fresh_weak w s \<longrightarrow>
            WeakPtr_from_shared w sp s = Some (set_weak w null_Ptr s) \<and>
            WeakPtr_UseCount w (set_weak w null_Ptr s) = Some 0 \<and>
            WeakPtr_Expired w (set_weak w null_Ptr s) = Some True) \<and>
         (weak s w \<noteq> None \<longrightarrow>
            (\<exists>s1. WeakPtr_Release w s = Some s1 \<and>
               WeakPtr_assign_shared w sp s = Some (set_weak w null_Ptr s1) \<and>
               WeakPtr_UseCount w (set_weak w null_Ptr s1) = Some 0 \<and>
               WeakPtr_Expired w (set_weak w null_Ptr s1) = Some True))"
proof (intro conjI impI)
  assume "fresh_weak w s"
  then show "WeakPtr_from_shared w sp s = Some (set_weak w null_Ptr s)"
    using assms(2) by (simp add: WeakPtr_from_shared_def null_Ptr_def)
  show "WeakPtr_UseCount w (set_weak w null_Ptr s) = Some 0"
    by (simp add: WeakPtr_UseCount_def set_weak_def null_Ptr_def)
  then show "WeakPtr_Expired w (set_weak w null_Ptr s) = Some True"
    by (simp add: WeakPtr_Expired_def)
next
  assume "weak s w \<noteq> None"
  then obtain y where y: "weak s w = Some y" by auto
  from invar_WeakPtr_Release [OF assms(1) y] obtain s1 where
    s1: "WeakPtr_Release w s = Some s1" by blast
  have "shared s1 = shared s" using WeakPtr_Release_frame [OF s1] by simp
  then have "WeakPtr_assign_shared w sp s = Some (set_weak w null_Ptr s1)"
    using assms(2) s1 by (simp add: WeakPtr_assign_shared_def null_Ptr_def)
  moreover have u: "WeakPtr_UseCount w (set_weak w null_Ptr s1) = Some 0"
    by (simp add: WeakPtr_UseCount_def set_weak_def null_Ptr_def)
  moreover have "WeakPtr_Expired w (set_weak w null_Ptr s1) = Some True"
    using u by (simp add: WeakPtr_Expired_def)
  ultimately show "\<exists>s1. WeakPtr_Release w s = Some s1 \<and>
               WeakPtr_assign_shared w sp s = Some (set_weak w null_Ptr s1) \<and>
               WeakPtr_UseCount w (set_weak w null_Ptr s1) = Some 0 \<and>
               WeakPtr_Expired w (set_weak w null_Ptr s1) = Some True"
    using s1 by blast
qed

theorem WeakPtr_from_null_SharedPtr_witness:
  "invar expired_weak \<and> shared expired_weak 1 = Some null_Ptr \<and>
   fresh_weak 2 expired_weak \<and> weak expired_weak 1 \<noteq> None \<and>
   WeakPtr_from_shared 2 1 expired_weak = Some (set_weak 2 null_Ptr expired_weak) \<and>
   WeakPtr_assign_shared 1 1 expired_weak =
     Some (expired_weak\<lparr>blocks := Map.empty, weak := [1 \<mapsto> null_Ptr], freed := [0]\<rparr>)"
proof -
  have a: "shared expired_weak 1 = Some null_Ptr" "fresh_weak 2 expired_weak"
    "weak expired_weak 1 \<noteq> None"
    by (simp_all add: expired_weak_def null_Ptr_def fresh_weak_def)
  have "WeakPtr_from_shared 2 1 expired_weak = Some (set_weak 2 null_Ptr expired_weak)"
    using WeakPtr_from_null_SharedPtr [OF invar_expired_weak a(1), of 2] a(2) by simp
  moreover have "WeakPtr_assign_shared 1 1 expired_weak =
     Some (expired_weak\<lparr>blocks := Map.empty, weak := [1 \<mapsto> null_Ptr], freed := [0]\<rparr>)"
    using WeakPtr_from_null_SharedPtr [OF invar_expired_weak a(1), of 1] a(3)
    by (simp add: model_defs expired_weak_def null_Ptr_def)
  ultimately show ?thesis using a invar_expired_weak by simp
qed

end
